theory Spec2Isabelle
  imports Main "HOL-Library.Word" "HOL-Library.Sublist"
begin

unbundle bit_operations_syntax

section \<open>Bytes and big-endian buffers\<close>

type_synonym byte = "8 word"

text \<open>
  Modelled from the spec: \<^verbatim>\<open>sc_write32be\<close> of \<^verbatim>\<open>util/binary.h\<close>, which is not among the
  sources. The spec fixes the layout of every 32-bit field on the wire as big-endian: 4
  bytes, most significant byte first.
\<close>

definition sc_write32be :: "32 word \<Rightarrow> byte list" where
  "sc_write32be v =
     [ucast (drop_bit 24 v), ucast (drop_bit 16 v), ucast (drop_bit 8 v), ucast v]"

text \<open>
  Modelled from the spec: \<^verbatim>\<open>sc_write64be\<close> of \<^verbatim>\<open>util/binary.h\<close>, which is not among the
  sources. The spec fixes the 64-bit flag word as big-endian: the upper 32 bits, then the
  lower 32 bits, each most significant byte first.
\<close>

definition sc_write64be :: "64 word \<Rightarrow> byte list" where
  "sc_write64be v = sc_write32be (ucast (drop_bit 32 v)) @ sc_write32be (ucast v)"

text \<open>
  What a client decodes: the big-endian value of the first 4, and of the first 8, bytes of
  a buffer. The sink itself never reads; these two functions only state what is on the
  wire.
\<close>

definition sc_read32be :: "byte list \<Rightarrow> 32 word" where
  "sc_read32be buf =
     push_bit 24 (ucast (buf ! 0)) OR push_bit 16 (ucast (buf ! 1))
       OR push_bit 8 (ucast (buf ! 2)) OR ucast (buf ! 3)"

definition sc_read64be :: "byte list \<Rightarrow> 64 word" where
  "sc_read64be buf =
     push_bit 32 (ucast (sc_read32be buf)) OR ucast (sc_read32be (drop 4 buf))"

section \<open>Sockets\<close>

text \<open>
  A socket handle is either the listening socket or the \<open>n\<close>-th connection of the network;
  \<^verbatim>\<open>SC_SOCKET_NONE\<close> is \<open>None\<close>. The network records, for every connection, the bytes
  written on it so far, and the handles that were closed or interrupted, in order.
\<close>

datatype sock = Listener | Conn nat

type_synonym sc_socket = "sock option"

abbreviation SC_SOCKET_NONE :: sc_socket where
  "SC_SOCKET_NONE \<equiv> None"

record net =
  wire :: "byte list list"
  closed :: "sock list"
  interrupted :: "sock list"

text \<open>
  Modelled from the spec: \<^verbatim>\<open>net_accept\<close> of the external socket API (\<^verbatim>\<open>util/net.h\<close>, not
  among the sources). The environment decides whether a client arrived (\<open>True\<close>) or the
  call failed; a client that arrived is a new connection of the network, on which nothing
  has been written.
\<close>

definition net_accept :: "net \<Rightarrow> bool \<Rightarrow> net \<times> sc_socket" where
  "net_accept n ok =
     (if ok then (n\<lparr>wire := wire n @ [[]]\<rparr>, Some (Conn (length (wire n))))
      else (n, SC_SOCKET_NONE))"

text \<open>
  Modelled from the spec: \<^verbatim>\<open>net_send_all\<close> of the external socket API. It writes the first
  \<open>len\<close> bytes of \<open>buf\<close>. The environment decides how far it gets: \<open>None\<close> when the peer
  takes every byte, \<open>Some k\<close> when the connection errors after \<open>k\<close> more bytes. The result
  is the number of bytes written, or \<open>-1\<close> when the error came before the first byte: the
  spec speaks of a failed send and of a short write. A send on a handle that is no
  connection fails.
\<close>

definition net_send_all :: "net \<Rightarrow> sc_socket \<Rightarrow> byte list \<Rightarrow> nat \<Rightarrow> nat option \<Rightarrow> net \<times> int" where
  "net_send_all n s buf len cap =
     (case s of
        Some (Conn i) \<Rightarrow>
          if i < length (wire n) then
            (let k = (case cap of None \<Rightarrow> len | Some c \<Rightarrow> min c len) in
               (n\<lparr>wire := (wire n)[i := wire n ! i @ take k buf]\<rparr>,
                if k = len then int len else if k = 0 then - 1 else int k))
          else (n, - 1)
      | _ \<Rightarrow> (n, - 1))"

text \<open>
  A send of \<open>len\<close> bytes completes when the environment lets every byte through: the peer
  takes them all.
\<close>

definition completes :: "nat option \<Rightarrow> nat \<Rightarrow> bool" where
  "completes cap len \<longleftrightarrow> (case cap of None \<Rightarrow> True | Some c \<Rightarrow> len \<le> c)"

text \<open>
  Modelled from the spec: \<^verbatim>\<open>net_close\<close> and \<^verbatim>\<open>net_interrupt\<close> of the external socket API.
  Neither writes a byte; the network keeps a log of the handles they were called on.
\<close>

definition net_close :: "net \<Rightarrow> sc_socket \<Rightarrow> net" where
  "net_close n s = (case s of None \<Rightarrow> n | Some h \<Rightarrow> n\<lparr>closed := closed n @ [h]\<rparr>)"

definition net_interrupt :: "net \<Rightarrow> sc_socket \<Rightarrow> net" where
  "net_interrupt n s = (case s of None \<Rightarrow> n | Some h \<Rightarrow> n\<lparr>interrupted := interrupted n @ [h]\<rparr>)"

section \<open>Packets\<close>

text \<open>
  An \<^verbatim>\<open>AVPacket\<close> as the sink reads it: \<open>pts\<close> is the \<^verbatim>\<open>int64_t\<close> timestamp (its 64
  bits; the cast to \<^verbatim>\<open>uint64_t\<close> keeps them), \<open>flags\<close> the \<^verbatim>\<open>int\<close> flag word, \<open>data\<close>
  the payload buffer. The field \<^verbatim>\<open>size\<close> of the C struct is the length of that buffer.
  \<^verbatim>\<open>AV_NOPTS_VALUE\<close> and \<^verbatim>\<open>AV_PKT_FLAG_KEY\<close> are constants of libavcodec, with the values
  that library gives them.
\<close>

record AVPacket =
  pts :: "64 word"
  flags :: "32 word"
  data :: "byte list"

definition AV_NOPTS_VALUE :: "64 word" where
  "AV_NOPTS_VALUE = 0x8000000000000000"

definition AV_PKT_FLAG_KEY :: "32 word" where
  "AV_PKT_FLAG_KEY = 1"

definition SC_CODEC_ID_H264 :: "32 word" where
  "SC_CODEC_ID_H264 = 0x68323634"

definition SC_CODEC_ID_H265 :: "32 word" where
  "SC_CODEC_ID_H265 = 0x68323635"

definition SC_PACKET_FLAG_CONFIG :: "64 word" where
  "SC_PACKET_FLAG_CONFIG = push_bit 63 1"

definition SC_PACKET_FLAG_KEY_FRAME :: "64 word" where
  "SC_PACKET_FLAG_KEY_FRAME = push_bit 62 1"

text \<open>
  \<^verbatim>\<open>sc_tcp_sink_packet_ref\<close>: \<^verbatim>\<open>av_packet_alloc\<close> may return null and \<^verbatim>\<open>av_packet_ref\<close>
  may fail; the two booleans say whether each succeeded. The copy is a deep one.
\<close>

definition sc_tcp_sink_packet_ref :: "bool \<Rightarrow> bool \<Rightarrow> AVPacket \<Rightarrow> AVPacket option" where
  "sc_tcp_sink_packet_ref alloc_ok ref_ok packet =
     (if \<not> alloc_ok then None
      else if \<not> ref_ok then None
      else Some packet)"

section \<open>The video sink\<close>

text \<open>
  The struct \<^verbatim>\<open>sc_tcp_sink\<close>. The mutex is left out: every operation below that takes
  it is one atomic step. \<open>cond\<close> counts the calls of \<^verbatim>\<open>sc_cond_signal\<close>. The queue
  (\<^verbatim>\<open>sc_vecdeque\<close>) is a list: \<^verbatim>\<open>sc_vecdeque_push\<close> appends, \<^verbatim>\<open>sc_vecdeque_pop\<close> takes the
  head. A packet handle is the packet it points to: every handle of the sink is a copy of
  its own. The one pointer that can outlive its packet is the worker's \<^verbatim>\<open>config_pkt\<close>
  (see the worker thread below).
\<close>

record sc_tcp_sink =
  port :: "16 word"
  server_socket :: sc_socket
  client_socket :: sc_socket
  stopped :: bool
  codec_sent :: bool
  queue :: "AVPacket list"
  codec_id :: "32 word"
  width :: "32 word"
  height :: "32 word"
  config_packet :: "AVPacket option"
  cond :: nat

datatype AVCodecID =
  AV_CODEC_ID_NONE | AV_CODEC_ID_MPEG4 | AV_CODEC_ID_H264 | AV_CODEC_ID_HEVC
  | AV_CODEC_ID_AV1 | AV_CODEC_ID_OTHER nat

record AVCodecContext =
  ctx_codec_id :: AVCodecID
  ctx_width :: "32 word"
  ctx_height :: "32 word"

definition sc_cond_signal :: "sc_tcp_sink \<Rightarrow> sc_tcp_sink" where
  "sc_cond_signal s = s\<lparr>cond := Suc (cond s)\<rparr>"

subsection \<open>Sending\<close>

definition sc_tcp_sink_send_codec_info ::
    "net \<Rightarrow> sc_tcp_sink \<Rightarrow> nat option \<Rightarrow> nat option \<Rightarrow> net \<times> bool" where
  "sc_tcp_sink_send_codec_info n s cap1 cap2 =
     (let (n1, r1) = net_send_all n (client_socket s) (sc_write32be (codec_id s)) 4 cap1 in
      if r1 < 0 then (n1, False)
      else
        let (n2, r2) = net_send_all n1 (client_socket s)
                         (sc_write32be (width s) @ sc_write32be (height s)) 8 cap2 in
        if r2 < 0 then (n2, False) else (n2, True))"

text \<open>
  \<^verbatim>\<open>sc_tcp_sink_send_packet\<close> in three parts: the local variable \<^verbatim>\<open>pts_flags\<close> (lines
  70-79), the 12 bytes of the local buffer \<^verbatim>\<open>header\<close> (lines 82-83), and the two sends
  (lines 86-95).
\<close>

definition pts_flags :: "AVPacket \<Rightarrow> 64 word" where
  "pts_flags packet =
     (if pts packet = AV_NOPTS_VALUE then SC_PACKET_FLAG_CONFIG
      else if flags packet AND AV_PKT_FLAG_KEY \<noteq> 0
           then pts packet OR SC_PACKET_FLAG_KEY_FRAME
           else pts packet)"

definition header :: "AVPacket \<Rightarrow> byte list" where
  "header packet =
     sc_write64be (pts_flags packet) @ sc_write32be (of_nat (length (data packet)))"

definition sc_tcp_sink_send_packet ::
    "net \<Rightarrow> sc_tcp_sink \<Rightarrow> AVPacket \<Rightarrow> nat option \<Rightarrow> nat option \<Rightarrow> net \<times> bool" where
  "sc_tcp_sink_send_packet n s packet cap1 cap2 =
     (let (n1, r1) = net_send_all n (client_socket s) (header packet) 12 cap1 in
      if r1 < 0 then (n1, False)
      else
        let (n2, r2) = net_send_all n1 (client_socket s) (data packet)
                         (length (data packet)) cap2 in
        if r2 < 0 then (n2, False) else (n2, True))"

subsection \<open>The packet-sink operations\<close>

definition sc_tcp_sink_packet_sink_open ::
    "sc_tcp_sink \<Rightarrow> AVCodecContext \<Rightarrow> bool \<times> sc_tcp_sink" where
  "sc_tcp_sink_packet_sink_open s ctx =
     (case ctx_codec_id ctx of
        AV_CODEC_ID_H264 \<Rightarrow>
          (True, sc_cond_signal
                   (s\<lparr>codec_id := SC_CODEC_ID_H264, width := ctx_width ctx,
                      height := ctx_height ctx, codec_sent := True\<rparr>))
      | AV_CODEC_ID_HEVC \<Rightarrow>
          (True, sc_cond_signal
                   (s\<lparr>codec_id := SC_CODEC_ID_H265, width := ctx_width ctx,
                      height := ctx_height ctx, codec_sent := True\<rparr>))
      | _ \<Rightarrow> (False, s))"

definition sc_tcp_sink_packet_sink_close :: "sc_tcp_sink \<Rightarrow> sc_tcp_sink" where
  "sc_tcp_sink_packet_sink_close s = sc_cond_signal (s\<lparr>stopped := True\<rparr>)"

text \<open>
  What the allocator decides during one \<^verbatim>\<open>push\<close>: the two steps of the copy made for the
  cache, the two steps of the copy made for the queue, and \<^verbatim>\<open>sc_vecdeque_push\<close>.
  \<open>cache_config\<close> is the first part of \<^verbatim>\<open>push\<close> after the test of \<open>stopped\<close> (lines
  292-300): the cached packet is freed and replaced by the result of the copy.
\<close>

record push_env =
  cache_alloc_ok :: bool
  cache_ref_ok :: bool
  pkt_alloc_ok :: bool
  pkt_ref_ok :: bool
  vecdeque_push_ok :: bool

definition cache_config :: "sc_tcp_sink \<Rightarrow> AVPacket \<Rightarrow> push_env \<Rightarrow> sc_tcp_sink" where
  "cache_config s packet env =
     (if pts packet = AV_NOPTS_VALUE
      then s\<lparr>config_packet :=
               sc_tcp_sink_packet_ref (cache_alloc_ok env) (cache_ref_ok env) packet\<rparr>
      else s)"

definition sc_tcp_sink_packet_sink_push ::
    "sc_tcp_sink \<Rightarrow> AVPacket \<Rightarrow> push_env \<Rightarrow> bool \<times> sc_tcp_sink" where
  "sc_tcp_sink_packet_sink_push s packet env =
     (if stopped s then (False, s)
      else
        let s1 = cache_config s packet env in
        if client_socket s1 = SC_SOCKET_NONE then (True, s1)
        else
          (case sc_tcp_sink_packet_ref (pkt_alloc_ok env) (pkt_ref_ok env) packet of
             None \<Rightarrow> (False, s1)
           | Some pkt \<Rightarrow>
               if \<not> vecdeque_push_ok env then (False, s1)
               else (True, sc_cond_signal (s1\<lparr>queue := queue s1 @ [pkt]\<rparr>))))"

text \<open>
  \<^verbatim>\<open>sc_tcp_sink_init\<close> writes the fields below into the caller's struct \<open>mem\<close>; the codec
  fields keep whatever the memory held. It fails when the mutex or the condition
  variable cannot be created.
\<close>

definition sc_tcp_sink_init ::
    "sc_tcp_sink \<Rightarrow> 16 word \<Rightarrow> bool \<Rightarrow> bool \<Rightarrow> bool \<times> sc_tcp_sink" where
  "sc_tcp_sink_init mem p mutex_ok cond_ok =
     (let s = mem\<lparr>port := p, server_socket := SC_SOCKET_NONE,
                  client_socket := SC_SOCKET_NONE, stopped := False,
                  codec_sent := False, config_packet := None\<rparr> in
      if \<not> mutex_ok then (False, s)
      else if \<not> cond_ok then (False, s)
      else (True, s\<lparr>queue := [], cond := 0\<rparr>))"

subsection \<open>The worker thread\<close>

text \<open>
  \<^verbatim>\<open>run_tcp_sink\<close> runs beside the upstream thread. It is modelled as a program counter
  and a step function: one step runs the worker from one place where the other thread can
  be observed to the next (a critical section, a blocking call, or one call of
  \<^verbatim>\<open>sc_tcp_sink_send_codec_info\<close> or \<^verbatim>\<open>sc_tcp_sink_send_packet\<close>). A step that would block
  (\<^verbatim>\<open>sc_cond_wait\<close> with its condition false) leaves the state as it is.

  The places: \<open>W_init\<close> before the listening socket exists; \<open>W_loop\<close> at the test of the
  outer loop; \<open>W_accept\<close> in \<^verbatim>\<open>net_accept\<close>; \<open>W_accepted\<close> before \<open>codec_sent\<close> is read;
  \<open>W_wait\<close> in the wait for the codec; \<open>W_waited\<close> after it; \<open>W_info\<close> before the codec
  header is sent; \<open>W_cfg\<close> before \<open>config_packet\<close> is read; \<open>W_send_cfg c\<close> before the cached
  packet \<open>c\<close> is sent, and \<open>W_send_cfg_freed\<close> at the same place once that packet has been
  freed; \<open>W_stream\<close> at the test of the inner loop; \<open>W_send p\<close> with \<open>p\<close> popped and not
  yet sent; \<open>W_close\<close> after the inner loop; \<open>W_cleanup\<close> after the outer loop;
  \<open>W_done r\<close> returned \<open>r\<close>. The code after the wait (lines 172-189) repeats lines 137-157
  and shares \<open>W_info\<close>, \<open>W_cfg\<close> and \<open>W_send_cfg\<close> with them. The reads that the worker
  makes without the lock (\<^verbatim>\<open>sink->stopped\<close> at lines 166 and 194, \<^verbatim>\<open>sink->config_packet\<close>
  at line 180) are atomic, like the reads under the lock.

  The local pointer \<^verbatim>\<open>config_pkt\<close>: the worker reads \<^verbatim>\<open>sink->config_packet\<close> (lines 146
  and 180) and calls \<^verbatim>\<open>sc_tcp_sink_send_packet\<close> on it without the lock (lines 150 and
  182). At \<open>W_send_cfg c\<close> the pointer is valid and points to the cached packet \<open>c\<close>. A
  \<open>push\<close> of a packet without timestamp that runs in between frees that packet (line
  296); the worker is then at \<open>W_send_cfg_freed\<close>, its pointer dangling, and its send
  reads freed memory. C leaves that read undefined; the model takes what the memory
  holds then from the environment.
\<close>

datatype wpc =
  W_init | W_loop | W_accept | W_accepted | W_wait | W_waited | W_info | W_cfg
  | W_send_cfg AVPacket | W_send_cfg_freed | W_stream | W_send AVPacket | W_close
  | W_cleanup | W_done int

text \<open>
  What the environment decides during one step of a worker thread (\<open>wenv\<close>), and what it
  decides in addition for the worker of the sink (\<open>senv\<close>): \<open>freed_read\<close> is the packet
  that a read through a dangling \<^verbatim>\<open>config_pkt\<close> finds.
\<close>

record wenv =
  socket_ok :: bool
  listen_ok :: bool
  accept_ok :: bool
  cap1 :: "nat option"
  cap2 :: "nat option"

record senv = wenv +
  freed_read :: AVPacket

record sys =
  sink :: sc_tcp_sink
  pc :: wpc
  network :: net

text \<open>
  \<open>drop_client\<close> is the pair of statements with which the worker gives up a client:
  \<^verbatim>\<open>net_close(sink->client_socket); sink->client_socket = SC_SOCKET_NONE;\<close>
\<close>

definition drop_client :: "sys \<Rightarrow> wpc \<Rightarrow> sys" where
  "drop_client st next_pc =
     st\<lparr>network := net_close (network st) (client_socket (sink st)),
        sink := (sink st)\<lparr>client_socket := SC_SOCKET_NONE\<rparr>,
        pc := next_pc\<rparr>"

definition run_tcp_sink :: "sys \<Rightarrow> senv \<Rightarrow> sys" where
  "run_tcp_sink st w =
     (let s = sink st; n = network st in
      case pc st of
        W_init \<Rightarrow>
          if \<not> socket_ok w then st\<lparr>sink := s\<lparr>server_socket := SC_SOCKET_NONE\<rparr>, pc := W_done (- 1)\<rparr>
          else if \<not> listen_ok w
          then st\<lparr>sink := s\<lparr>server_socket := Some Listener\<rparr>,
                  network := net_close n (Some Listener), pc := W_done (- 1)\<rparr>
          else st\<lparr>sink := s\<lparr>server_socket := Some Listener\<rparr>, pc := W_loop\<rparr>
      | W_loop \<Rightarrow> if stopped s then st\<lparr>pc := W_cleanup\<rparr> else st\<lparr>pc := W_accept\<rparr>
      | W_accept \<Rightarrow>
          (let (n1, c) = net_accept n (accept_ok w);
               st1 = st\<lparr>sink := s\<lparr>client_socket := c\<rparr>, network := n1\<rparr> in
           if c = SC_SOCKET_NONE
           then (if stopped s then st1\<lparr>pc := W_cleanup\<rparr> else st1\<lparr>pc := W_loop\<rparr>)
           else st1\<lparr>pc := W_accepted\<rparr>)
      | W_accepted \<Rightarrow> if codec_sent s then st\<lparr>pc := W_info\<rparr> else st\<lparr>pc := W_wait\<rparr>
      | W_wait \<Rightarrow> if \<not> codec_sent s \<and> \<not> stopped s then st else st\<lparr>pc := W_waited\<rparr>
      | W_waited \<Rightarrow> if stopped s then drop_client st W_cleanup else st\<lparr>pc := W_info\<rparr>
      | W_info \<Rightarrow>
          (let (n1, ok) = sc_tcp_sink_send_codec_info n s (cap1 w) (cap2 w) in
           if \<not> ok then drop_client (st\<lparr>network := n1\<rparr>) W_loop
           else st\<lparr>network := n1, pc := W_cfg\<rparr>)
      | W_cfg \<Rightarrow>
          (case config_packet s of
             Some config_pkt \<Rightarrow> st\<lparr>pc := W_send_cfg config_pkt\<rparr>
           | None \<Rightarrow> st\<lparr>pc := W_stream\<rparr>)
      | W_send_cfg config_pkt \<Rightarrow>
          (let (n1, ok) = sc_tcp_sink_send_packet n s config_pkt (cap1 w) (cap2 w) in
           if \<not> ok then drop_client (st\<lparr>network := n1\<rparr>) W_loop
           else st\<lparr>network := n1, pc := W_stream\<rparr>)
      | W_send_cfg_freed \<Rightarrow>
          (let (n1, ok) = sc_tcp_sink_send_packet n s (freed_read w) (cap1 w) (cap2 w) in
           if \<not> ok then drop_client (st\<lparr>network := n1\<rparr>) W_loop
           else st\<lparr>network := n1, pc := W_stream\<rparr>)
      | W_stream \<Rightarrow>
          if stopped s then st\<lparr>pc := W_close\<rparr>
          else (case queue s of
                  [] \<Rightarrow> st
                | packet # rest \<Rightarrow> st\<lparr>sink := s\<lparr>queue := rest\<rparr>, pc := W_send packet\<rparr>)
      | W_send packet \<Rightarrow>
          (let (n1, ok) = sc_tcp_sink_send_packet n s packet (cap1 w) (cap2 w) in
           if \<not> ok then st\<lparr>network := n1, pc := W_close\<rparr>
           else st\<lparr>network := n1, pc := W_stream\<rparr>)
      | W_close \<Rightarrow>
          if client_socket s \<noteq> SC_SOCKET_NONE then drop_client st W_loop
          else st\<lparr>pc := W_loop\<rparr>
      | W_cleanup \<Rightarrow>
          (let s1 = s\<lparr>queue := []\<rparr> in
           if server_socket s1 \<noteq> SC_SOCKET_NONE
           then st\<lparr>sink := s1\<lparr>server_socket := SC_SOCKET_NONE\<rparr>,
                   network := net_close n (server_socket s1), pc := W_done 0\<rparr>
           else st\<lparr>sink := s1, pc := W_done 0\<rparr>)
      | W_done r \<Rightarrow> st)"

definition sc_tcp_sink_stop :: "sys \<Rightarrow> sys" where
  "sc_tcp_sink_stop st =
     (let s = sc_cond_signal ((sink st)\<lparr>stopped := True\<rparr>) in
      st\<lparr>sink := s,
         network := net_interrupt (net_interrupt (network st) (server_socket s))
                      (client_socket s)\<rparr>)"

subsection \<open>Schedules\<close>

text \<open>
  What happens to a sink after \<^verbatim>\<open>sc_tcp_sink_start\<close> is a sequence of events: the upstream
  thread calls \<open>open\<close>, \<open>push\<close> or \<open>close\<close>, the owner calls \<^verbatim>\<open>sc_tcp_sink_stop\<close>, or the
  worker takes a step. Every interleaving of the two threads is such a sequence.
\<close>

datatype event =
  Open AVCodecContext | Push AVPacket push_env | Close | Stop | Work senv

text \<open>
  A \<open>push\<close> frees the cached packet when it gets past the test of \<open>stopped\<close>, its packet
  has no timestamp and a packet is cached (lines 287-297). A worker that holds a
  pointer to that packet (\<open>W_send_cfg\<close>) holds a dangling pointer from then on.
\<close>

definition config_freed :: "sc_tcp_sink \<Rightarrow> AVPacket \<Rightarrow> bool" where
  "config_freed s packet \<longleftrightarrow>
     \<not> stopped s \<and> pts packet = AV_NOPTS_VALUE \<and> config_packet s \<noteq> None"

definition dangling :: "wpc \<Rightarrow> wpc" where
  "dangling c = (case c of W_send_cfg config_pkt \<Rightarrow> W_send_cfg_freed | _ \<Rightarrow> c)"

fun step :: "sys \<Rightarrow> event \<Rightarrow> sys" where
  "step st (Open ctx) = st\<lparr>sink := snd (sc_tcp_sink_packet_sink_open (sink st) ctx)\<rparr>"
| "step st (Push packet env) =
     st\<lparr>sink := snd (sc_tcp_sink_packet_sink_push (sink st) packet env),
        pc := (if config_freed (sink st) packet then dangling (pc st) else pc st)\<rparr>"
| "step st Close = st\<lparr>sink := sc_tcp_sink_packet_sink_close (sink st)\<rparr>"
| "step st Stop = sc_tcp_sink_stop st"
| "step st (Work w) = run_tcp_sink st w"

definition run :: "sys \<Rightarrow> event list \<Rightarrow> sys" where
  "run st es = foldl step st es"

text \<open>The system once \<^verbatim>\<open>sc_tcp_sink_init\<close> and \<^verbatim>\<open>sc_tcp_sink_start\<close> have succeeded.\<close>

definition started :: "sc_tcp_sink \<Rightarrow> 16 word \<Rightarrow> sys" where
  "started mem p =
     \<lparr>sink = snd (sc_tcp_sink_init mem p True True), pc = W_init,
      network = \<lparr>wire = [], closed = [], interrupted = []\<rparr>\<rparr>"

section \<open>The control forwarder\<close>




















section \<open>What a client reads\<close>

text \<open>
  The frame of a packet is its 12-byte header followed by its payload. The codec header
  of a sink is the 12 bytes that \<^verbatim>\<open>sc_tcp_sink_send_codec_info\<close> puts into \<^verbatim>\<open>buf\<close> for its
  two sends: the codec id, the width and the height, as the sink holds them at that
  moment.
\<close>

definition frame :: "AVPacket \<Rightarrow> byte list" where
  "frame p = header p @ data p"

definition frames :: "AVPacket list \<Rightarrow> byte list" where
  "frames ps = concat (map frame ps)"

definition codec_info :: "sc_tcp_sink \<Rightarrow> byte list" where
  "codec_info s = sc_write32be (codec_id s) @ sc_write32be (width s) @ sc_write32be (height s)"

text \<open>
  An event completes an accept when it opens a connection; it pushes a packet when it is a
  \<open>push\<close> that returns success. A step of the worker sets out a part of the greeting of
  its client: at \<open>W_info\<close> the codec header of the sink as it is then, at \<open>W_cfg\<close> the frame
  of the packet that is cached then, if one is.
\<close>

definition accepts :: "sys \<Rightarrow> event \<Rightarrow> bool" where
  "accepts st e \<longleftrightarrow> length (wire (network st)) < length (wire (network (step st e)))"

definition pushes :: "sys \<Rightarrow> event \<Rightarrow> AVPacket list" where
  "pushes st e =
     (case e of
        Push p env \<Rightarrow> if fst (sc_tcp_sink_packet_sink_push (sink st) p env) then [p] else []
      | _ \<Rightarrow> [])"

definition greets :: "sys \<Rightarrow> event \<Rightarrow> byte list" where
  "greets st e =
     (case e of
        Work w \<Rightarrow>
          (case pc st of
             W_info \<Rightarrow> codec_info (sink st)
           | W_cfg \<Rightarrow> (case config_packet (sink st) of Some c \<Rightarrow> frame c | None \<Rightarrow> [])
           | _ \<Rightarrow> [])
      | _ \<Rightarrow> [])"

text \<open>
  \<open>at_client s f L\<close> applies \<open>f\<close> to the entry that a list \<open>L\<close>, which has one entry per
  connection, holds for the connection behind the socket \<open>s\<close>.
\<close>

definition at_client :: "sc_socket \<Rightarrow> ('a \<Rightarrow> 'a) \<Rightarrow> 'a list \<Rightarrow> 'a list" where
  "at_client s f L =
     (case s of
        Some (Conn i) \<Rightarrow> if i < length L then L[i := f (L ! i)] else L
      | _ \<Rightarrow> L)"

text \<open>
  The account of a connection is the greeting that the worker has set out for it so far
  and a list of packets. \<open>stream_of w a\<close>: the bytes \<open>w\<close> written on the connection are a
  prefix of the greeting followed by the frames of the packets in their order.

  \<open>log_after backlog st es L\<close> follows the schedule \<open>es\<close> from \<open>st\<close> and keeps the
  accounts, event by event (\<open>log_step\<close>): a connection starts with no greeting and with
  the packets \<open>backlog\<close> of the state in which its accept completes; every part of the
  greeting that the worker sets out for its client is added to the account of that
  client; every later successful push is added to every account.
  \<^item> \<open>pushed_after_accept\<close> starts each connection with no packets: the packets whose push
    occurred after that client's accept completed.
  \<^item> \<open>owed\<close> starts each connection with the packets that are in the queue when its accept
    completes.
\<close>

type_synonym account = "byte list \<times> AVPacket list"


definition log_step ::
    "(sys \<Rightarrow> AVPacket list) \<Rightarrow> sys \<Rightarrow> event \<Rightarrow> account list \<Rightarrow> account list" where
  "log_step backlog st e L =
     at_client (client_socket (sink st)) (\<lambda>a. (fst a @ greets st e, snd a))
       (map (\<lambda>a. (fst a, snd a @ pushes st e)) L)
     @ (if accepts st e then [([], backlog st)] else [])"

fun log_after ::
    "(sys \<Rightarrow> AVPacket list) \<Rightarrow> sys \<Rightarrow> event list \<Rightarrow> account list \<Rightarrow> account list" where
  "log_after backlog st [] L = L"
| "log_after backlog st (e # es) L =
     log_after backlog (step st e) es (log_step backlog st e L)"


definition owed :: "sys \<Rightarrow> event list \<Rightarrow> account list" where
  "owed st es = log_after (\<lambda>st. queue (sink st)) st es []"

text \<open>
  A send is whole or nothing when the peer takes every byte or the error comes before the
  first one; a schedule has no short write when every send of the worker is such.
\<close>

definition whole_or_nothing :: "nat option \<Rightarrow> bool" where
  "whole_or_nothing cap \<longleftrightarrow> cap = None \<or> cap = Some 0"

definition no_short_write :: "event list \<Rightarrow> bool" where
  "no_short_write es \<longleftrightarrow>
     (\<forall>e \<in> set es. case e of
                      Work w \<Rightarrow> whole_or_nothing (cap1 w) \<and> whole_or_nothing (cap2 w)
                    | _ \<Rightarrow> True)"


text \<open>
  An event uses freed memory when it is a step of the worker at \<open>W_send_cfg_freed\<close>: the
  call of \<^verbatim>\<open>sc_tcp_sink_send_packet\<close> on a cached packet that a \<open>push\<close> has freed since the
  worker read the pointer. \<open>no_use_after_free st es\<close>: no event of the schedule \<open>es\<close>,
  followed from \<open>st\<close>, does.
\<close>

definition uses_freed :: "sys \<Rightarrow> event \<Rightarrow> bool" where
  "uses_freed st e \<longleftrightarrow> (case e of Work w \<Rightarrow> pc st = W_send_cfg_freed | _ \<Rightarrow> False)"

fun no_use_after_free :: "sys \<Rightarrow> event list \<Rightarrow> bool" where
  "no_use_after_free st [] = True"
| "no_use_after_free st (e # es) = (\<not> uses_freed st e \<and> no_use_after_free (step st e) es)"

text \<open>The worker is in its inner loop: the greeting of the current client is behind it.\<close>

definition streaming :: "wpc \<Rightarrow> bool" where
  "streaming c \<longleftrightarrow> (case c of W_stream \<Rightarrow> True | W_send p \<Rightarrow> True | _ \<Rightarrow> False)"


text \<open>
  The codec headers of a schedule: for every connection, the bytes that the worker has
  handed to \<^verbatim>\<open>sc_tcp_sink_send_codec_info\<close> for it, call after call. \<open>headed w h\<close>: of the
  bytes \<open>w\<close> written on a connection and its codec headers \<open>h\<close>, either no header has been
  set out and nothing is written, or \<open>h\<close> is one header of 12 bytes and \<open>w\<close> is a part of
  it or begins with it.
\<close>

definition info_sent :: "sys \<Rightarrow> event \<Rightarrow> byte list" where
  "info_sent st e =
     (case e of
        Work w \<Rightarrow> (case pc st of W_info \<Rightarrow> codec_info (sink st) | _ \<Rightarrow> [])
      | _ \<Rightarrow> [])"

definition codec_headers_step :: "sys \<Rightarrow> event \<Rightarrow> byte list list \<Rightarrow> byte list list" where
  "codec_headers_step st e H =
     at_client (client_socket (sink st)) (\<lambda>h. h @ info_sent st e) H
     @ (if accepts st e then [[]] else [])"

fun codec_headers_after :: "sys \<Rightarrow> event list \<Rightarrow> byte list list \<Rightarrow> byte list list" where
  "codec_headers_after st [] H = H"
| "codec_headers_after st (e # es) H =
     codec_headers_after (step st e) es (codec_headers_step st e H)"

definition codec_headers :: "sys \<Rightarrow> event list \<Rightarrow> byte list list" where
  "codec_headers st es = codec_headers_after st es []"

definition headed :: "byte list \<Rightarrow> byte list \<Rightarrow> bool" where
  "headed w h \<longleftrightarrow>
     (if h = [] then w = [] else length h = 12 \<and> (prefix w h \<or> prefix h w))"

section \<open>Concrete inputs\<close>

definition fresh_mem :: sc_tcp_sink where
  "fresh_mem = \<lparr>port = 0, server_socket = SC_SOCKET_NONE, client_socket = SC_SOCKET_NONE,
     stopped = False, codec_sent = False, queue = [], codec_id = 0, width = 0, height = 0,
     config_packet = None, cond = 0\<rparr>"

definition idle_sink :: sc_tcp_sink where
  "idle_sink = snd (sc_tcp_sink_init fresh_mem 27183 True True)"

definition serving_sink :: sc_tcp_sink where
  "serving_sink = idle_sink\<lparr>client_socket := Some (Conn 0)\<rparr>"

definition one_client :: net where
  "one_client = \<lparr>wire = [[]], closed = [], interrupted = []\<rparr>"

definition h264_720p :: AVCodecContext where
  "h264_720p = \<lparr>ctx_codec_id = AV_CODEC_ID_H264, ctx_width = 1280, ctx_height = 720\<rparr>"

definition mpeg4_720p :: AVCodecContext where
  "mpeg4_720p = \<lparr>ctx_codec_id = AV_CODEC_ID_MPEG4, ctx_width = 1280, ctx_height = 720\<rparr>"

definition key_1000 :: AVPacket where
  "key_1000 = \<lparr>pts = 1000, flags = 1, data = [0xAA]\<rparr>"

definition key_minus_1 :: AVPacket where
  "key_minus_1 = \<lparr>pts = 0xFFFFFFFFFFFFFFFF, flags = 1, data = [0xAA]\<rparr>"

definition frame_2000 :: AVPacket where
  "frame_2000 = \<lparr>pts = 2000, flags = 0, data = [0xBB, 0xCC]\<rparr>"

definition config_67 :: AVPacket where
  "config_67 = \<lparr>pts = AV_NOPTS_VALUE, flags = 0, data = [0x67]\<rparr>"

definition config_68 :: AVPacket where
  "config_68 = \<lparr>pts = AV_NOPTS_VALUE, flags = 0, data = [0x68, 0x68]\<rparr>"

definition all_ok :: push_env where
  "all_ok = \<lparr>cache_alloc_ok = True, cache_ref_ok = True, pkt_alloc_ok = True,
              pkt_ref_ok = True, vecdeque_push_ok = True\<rparr>"

definition no_memory :: push_env where
  "no_memory = \<lparr>cache_alloc_ok = False, cache_ref_ok = False, pkt_alloc_ok = False,
                 pkt_ref_ok = False, vecdeque_push_ok = False\<rparr>"

text \<open>
  A worker step in which every call succeeds, and one in which the first send fails;
  in both, freed memory reads as the packet \<open>scribble\<close>.
\<close>

definition scribble :: AVPacket where
  "scribble = \<lparr>pts = 0x5A5A5A5A5A5A5A5A, flags = 0, data = [0x5A]\<rparr>"

definition fine :: senv where
  "fine = \<lparr>socket_ok = True, listen_ok = True, accept_ok = True, cap1 = None, cap2 = None,
            freed_read = scribble\<rparr>"

definition broken :: senv where
  "broken = \<lparr>socket_ok = True, listen_ok = True, accept_ok = True, cap1 = Some 0, cap2 = None,
              freed_read = scribble\<rparr>"

text \<open>
  A second client after a failed send: the worker listens, \<open>open\<close> is called, the first
  client is accepted and greeted, two packets are pushed, the first is popped and its send
  fails, the client is dropped, a second client is accepted and greeted, and the worker
  pops and sends what is in the queue.
\<close>

definition second_client :: "event list" where
  "second_client =
     [Work fine, Open h264_720p, Work fine, Work fine, Work fine, Work fine, Work fine,
      Push key_1000 all_ok, Push frame_2000 all_ok,
      Work fine, Work broken, Work fine,
      Work fine, Work fine, Work fine, Work fine, Work fine,
      Work fine, Work fine]"





text \<open>
  A config push between the read and the send: \<open>config_67\<close> is cached, a client is
  accepted and sent the codec header, the worker reads the pointer to the cached packet,
  \<open>config_68\<close> is pushed, and the worker sends through its pointer.
\<close>

definition config_race :: "event list" where
  "config_race =
     [Work fine, Open h264_720p, Push config_67 all_ok,
      Work fine, Work fine, Work fine, Work fine, Work fine,
      Push config_68 all_ok, Work fine]"

text \<open>
  A short write in the codec header: the worker listens, \<open>open\<close> is called, a client is
  accepted, the second send of the codec header stops after 3 of its 8 bytes, and the
  worker goes on: it finds no cached packet, a keyframe is pushed, popped and sent.
\<close>

definition short_header :: "event list" where
  "short_header =
     [Work fine, Open h264_720p, Work fine, Work fine, Work fine,
      Work (fine\<lparr>cap2 := Some 3\<rparr>), Work fine,
      Push key_1000 all_ok, Work fine, Work fine]"








section \<open>Invariants of the worker\<close>

text \<open>
  The worker holds a live client: \<open>client_socket\<close> is the connection accepted last.
\<close>

definition current :: "sys \<Rightarrow> bool" where
  "current st \<longleftrightarrow>
     (case client_socket (sink st) of
        Some (Conn i) \<Rightarrow> Suc i = length (wire (network st))
      | _ \<Rightarrow> False)"



text \<open>
  \<open>header_inv st H\<close> relates a state to the codec headers \<open>H\<close> of its connections: every
  connection is headed by its codec headers; and for the current client, place by place:
  before the codec header is sent nothing is written and no header is set out; after it
  one header of 12 bytes is set out and what is written begins with it.
\<close>

definition header_inv :: "sys \<Rightarrow> byte list list \<Rightarrow> bool" where
  "header_inv st H \<longleftrightarrow>
     list_all2 headed (wire (network st)) H
     \<and> (case pc st of
          W_accepted \<Rightarrow> current st \<and> last (wire (network st)) = [] \<and> last H = []
        | W_wait \<Rightarrow> current st \<and> last (wire (network st)) = [] \<and> last H = []
        | W_waited \<Rightarrow> current st \<and> last (wire (network st)) = [] \<and> last H = []
        | W_info \<Rightarrow> current st \<and> last (wire (network st)) = [] \<and> last H = []
        | W_cfg \<Rightarrow>
            current st \<and> length (last H) = 12 \<and> prefix (last H) (last (wire (network st)))
        | W_send_cfg c \<Rightarrow>
            current st \<and> length (last H) = 12 \<and> prefix (last H) (last (wire (network st)))
        | W_send_cfg_freed \<Rightarrow>
            current st \<and> length (last H) = 12 \<and> prefix (last H) (last (wire (network st)))
        | W_stream \<Rightarrow>
            current st \<and> length (last H) = 12 \<and> prefix (last H) (last (wire (network st)))
        | W_send p \<Rightarrow>
            current st \<and> length (last H) = 12 \<and> prefix (last H) (last (wire (network st)))
        | _ \<Rightarrow> True)"

section \<open>Encoding and sending: basic facts\<close>

lemma read32_bytes:
  "push_bit 24 (ucast (ucast (drop_bit 24 v) :: byte)) OR push_bit 16 (ucast (ucast (drop_bit 16 v) :: byte))
     OR push_bit 8 (ucast (ucast (drop_bit 8 v) :: byte)) OR ucast (ucast v :: byte) = (v :: 32 word)"
proof (rule bit_word_eqI)
  fix n assume "n < LENGTH(32)"
  then have "n < 32" by simp
  then consider "n < 8" | "8 \<le> n" "n < 16" | "16 \<le> n" "n < 24" | "24 \<le> n" "n < 32"
    by linarith
  then show "bit (push_bit 24 (ucast (ucast (drop_bit 24 v) :: byte))
                  OR push_bit 16 (ucast (ucast (drop_bit 16 v) :: byte))
                  OR push_bit 8 (ucast (ucast (drop_bit 8 v) :: byte))
                  OR (ucast (ucast v :: byte) :: 32 word)) n = bit v n"
  proof cases
    case 1 then show ?thesis by (auto simp: bit_simps)
  next
    case 2 then show ?thesis by (auto simp: bit_simps)
  next
    case 3 then show ?thesis by (auto simp: bit_simps)
  next
    case 4 then show ?thesis by (auto simp: bit_simps)
  qed
qed

lemma length_sc_write32be [simp]: "length (sc_write32be v) = 4"
  by (simp add: sc_write32be_def)

lemma length_sc_write64be [simp]: "length (sc_write64be v) = 8"
  by (simp add: sc_write64be_def)

lemma sc_read32be_write [simp]: "sc_read32be (sc_write32be v @ rest) = v"
  by (simp add: sc_read32be_def sc_write32be_def read32_bytes)

lemma read64_halves:
  "push_bit 32 (ucast (ucast (drop_bit 32 v) :: 32 word)) OR ucast (ucast v :: 32 word) = (v :: 64 word)"
proof (rule bit_word_eqI)
  fix n assume "n < LENGTH(64)"
  then have n: "n < 64" by simp
  show "bit (push_bit 32 (ucast (ucast (drop_bit 32 v) :: 32 word))
             OR (ucast (ucast v :: 32 word) :: 64 word)) n = bit v n"
  proof (cases "n < 32")
    case True then show ?thesis by (auto simp: bit_simps)
  next
    case False with n show ?thesis by (auto simp: bit_simps)
  qed
qed

lemma sc_read64be_write [simp]: "sc_read64be (sc_write64be v @ rest) = v"
proof -
  have a: "sc_read32be (sc_write64be v @ rest) = ucast (drop_bit 32 v)"
    by (simp add: sc_write64be_def)
  have b: "sc_read32be (drop 4 (sc_write64be v @ rest)) = ucast v"
    by (simp add: sc_write64be_def)
  show ?thesis
    unfolding sc_read64be_def a b by (rule read64_halves)
qed

lemma length_header [simp]: "length (header p) = 12"
  by (simp add: header_def)

lemma sc_read64be_header [simp]: "sc_read64be (header p @ rest) = pts_flags p"
  by (simp add: header_def)

lemma sc_read32be_header [simp]:
  "sc_read32be (drop 8 (header p) @ rest) = of_nat (length (data p))"
  by (simp add: header_def)

lemma take_bit_62_below:
  fixes t :: "64 word"
  assumes "t < 2 ^ 62"
  shows "take_bit 62 t = t"
  using assms by (simp add: take_bit_eq_mask less_mask_eq)

lemma key_frame_flag_bits:
  "bit SC_PACKET_FLAG_KEY_FRAME n \<longleftrightarrow> n = 62"
  unfolding SC_PACKET_FLAG_KEY_FRAME_def
  by (simp only: bit_push_bit_iff bit_1_iff possible_bit_word) auto


lemma below_62_bits:
  fixes t :: "64 word"
  assumes "t < 2 ^ 62"
  shows "\<not> bit t 62" and "\<not> bit t 63"
proof -
  have e: "take_bit 62 t = t" using assms by (rule take_bit_62_below)
  have "\<not> bit (take_bit 62 t) 62" "\<not> bit (take_bit 62 t) 63"
    by (simp_all add: bit_take_bit_iff)
  then show "\<not> bit t 62" and "\<not> bit t 63" by (simp_all add: e)
qed

lemma below_62_not_nopts:
  fixes t :: "64 word"
  assumes "t < 2 ^ 62"
  shows "t \<noteq> AV_NOPTS_VALUE"
proof
  assume "t = AV_NOPTS_VALUE"
  then have "bit t 63" by (simp add: AV_NOPTS_VALUE_def)
  with below_62_bits(2)[OF assms] show False by simp
qed

text \<open>
  Read as an \<^verbatim>\<open>int64_t\<close>, the timestamps below \<open>2\<^sup>6\<^sup>2\<close> are those from 0 up to, not
  including, \<open>2\<^sup>6\<^sup>2\<close>.
\<close>

lemma sint_nonneg_uint:
  fixes t :: "64 word"
  assumes "0 \<le> sint t"
  shows "uint t = sint t"
proof -
  have "sint t < 2 ^ 63" using sint_lt[of t] by simp
  then have "sint t < 2 ^ 64" by simp
  with assms have "take_bit 64 (sint t) = sint t" by (simp add: take_bit_int_eq_self)
  then show ?thesis using uint_sint[of t] by simp
qed

lemma pts_range_signed:
  fixes t :: "64 word"
  shows "t < 2 ^ 62 \<longleftrightarrow> 0 \<le> sint t \<and> sint t < 2 ^ 62"
proof
  assume a: "t < 2 ^ 62"
  then have "\<not> bit t 63" by (rule below_62_bits(2))
  then have nn: "0 \<le> sint t"
    using bit_last_iff[of t] by simp
  from a have "uint t < 2 ^ 62" by (simp add: word_less_def)
  with nn show "0 \<le> sint t \<and> sint t < 2 ^ 62" by (simp add: sint_nonneg_uint)
next
  assume a: "0 \<le> sint t \<and> sint t < 2 ^ 62"
  then have "uint t < 2 ^ 62" by (simp add: sint_nonneg_uint)
  then show "t < 2 ^ 62" by (simp add: word_less_def)
qed

lemma key_pts_flags:
  fixes k :: AVPacket
  assumes "pts k < 2 ^ 62" and "flags k AND AV_PKT_FLAG_KEY \<noteq> 0"
  shows "bit (pts_flags k) 62" and "\<not> bit (pts_flags k) 63" and "take_bit 62 (pts_flags k) = pts k"
proof -
  have pf: "pts_flags k = pts k OR SC_PACKET_FLAG_KEY_FRAME"
    using assms below_62_not_nopts[OF assms(1)] by (simp add: pts_flags_def)
  show "bit (pts_flags k) 62" by (simp add: pf bit_or_iff key_frame_flag_bits)
  show "\<not> bit (pts_flags k) 63"
    using below_62_bits(2)[OF assms(1)] by (simp add: pf bit_or_iff key_frame_flag_bits)
  have "take_bit 62 SC_PACKET_FLAG_KEY_FRAME = (0 :: 64 word)"
    by (rule bit_word_eqI) (simp add: bit_take_bit_iff key_frame_flag_bits)
  then show "take_bit 62 (pts_flags k) = pts k"
    by (simp add: pf take_bit_or take_bit_62_below[OF assms(1)])
qed

lemma completes_None [simp]: "completes None len"
  by (simp add: completes_def)

lemma net_send_all_full:
  assumes "i < length (wire n)" and "completes cap len"
  shows "net_send_all n (Some (Conn i)) buf len cap
           = (n\<lparr>wire := (wire n)[i := wire n ! i @ take len buf]\<rparr>, int len)"
  using assms by (auto simp: net_send_all_def completes_def min_def split: option.splits)

lemma send_packet_full:
  assumes "client_socket s = Some (Conn i)" and "i < length (wire n)"
    and "completes ca 12" and "completes cb (length (data p))"
  shows "sc_tcp_sink_send_packet n s p ca cb
           = (n\<lparr>wire := (wire n)[i := wire n ! i @ header p @ data p]\<rparr>, True)"
  using assms by (simp add: sc_tcp_sink_send_packet_def net_send_all_full)

lemma length_codec_info [simp]: "length (codec_info s) = 12"
  by (simp add: codec_info_def)

lemma send_codec_info_full:
  assumes "client_socket s = Some (Conn i)" and "i < length (wire n)"
    and "completes ca 4" and "completes cb 8"
  shows "sc_tcp_sink_send_codec_info n s ca cb
           = (n\<lparr>wire := (wire n)[i := wire n ! i @ codec_info s]\<rparr>, True)"
  using assms by (simp add: sc_tcp_sink_send_codec_info_def net_send_all_full codec_info_def)

lemmas example_defs = fresh_mem_def idle_sink_def serving_sink_def one_client_def h264_720p_def
  mpeg4_720p_def key_1000_def key_minus_1_def frame_2000_def config_67_def config_68_def
  all_ok_def no_memory_def sc_tcp_sink_init_def

section \<open>The wire format\<close>

text \<open>
  C3, as amended. For every packet \<open>k\<close> with the keyframe flag whose timestamp \<open>t\<close> (the
  \<^verbatim>\<open>int64_t\<close> value \<open>sint (pts k)\<close>) lies in \<open>0 \<le> t < 2\<^sup>6\<^sup>2\<close> and whose payload is shorter
  than \<open>2\<^sup>3\<^sup>1\<close> bytes, \<^verbatim>\<open>sc_tcp_sink_send_packet\<close>, when the client is a connection and
  both of its sends complete (the send of the 12 bytes of the header and the send of the
  payload), writes on the client's connection the 12-byte header followed by the payload;
  the first 8 bytes, read big-endian, have bit 62 set, bit 63 clear and the lower 62 bits
  equal to \<open>t\<close>; the next 4 bytes, read big-endian, are the payload length; the payload
  follows.
\<close>

theorem keyframe_wire_frame:
  assumes "0 \<le> sint (pts k)" and "sint (pts k) < 2 ^ 62"
    and "flags k AND AV_PKT_FLAG_KEY \<noteq> 0"
    and "length (data k) < 2 ^ 31"
    and "client_socket s = Some (Conn i)"
    and "i < length (wire n)"
    and "completes c1 12" and "completes c2 (length (data k))"
  shows "sc_tcp_sink_send_packet n s k c1 c2
           = (n\<lparr>wire := (wire n)[i := wire n ! i @ header k @ data k]\<rparr>, True)
         \<and> length (header k) = 12
         \<and> bit (sc_read64be (header k @ data k)) 62
         \<and> \<not> bit (sc_read64be (header k @ data k)) 63
         \<and> uint (take_bit 62 (sc_read64be (header k @ data k))) = sint (pts k)
         \<and> unat (sc_read32be (drop 8 (header k @ data k))) = length (data k)
         \<and> drop 12 (header k @ data k) = data k"
proof -
  have t: "pts k < 2 ^ 62"
    using assms(1,2) pts_range_signed[of "pts k"] by blast
  have "length (data k) < 2 ^ 32"
    using assms(4) by (rule less_trans) simp
  then have len: "unat (of_nat (length (data k)) :: 32 word) = length (data k)"
    by (simp add: unat_of_nat)
  have "uint (pts k) = sint (pts k)"
    using assms(1) by (rule sint_nonneg_uint)
  then show ?thesis
    using key_pts_flags[OF t assms(3)] send_packet_full[OF assms(5,6,7,8)] len
    by simp
qed

text \<open>The theorem at the keyframe with timestamp 1000 and payload \<open>AA\<close>.\<close>

theorem keyframe_wire_frame_witness:
  "0 \<le> sint (pts key_1000) \<and> sint (pts key_1000) < 2 ^ 62
   \<and> flags key_1000 AND AV_PKT_FLAG_KEY \<noteq> 0
   \<and> length (data key_1000) < 2 ^ 31
   \<and> client_socket serving_sink = Some (Conn 0) \<and> 0 < length (wire one_client)
   \<and> completes None 12 \<and> completes (Some 1) (length (data key_1000))
   \<and> sc_tcp_sink_send_packet one_client serving_sink key_1000 None (Some 1)
       = (one_client\<lparr>wire := [[0x40, 0, 0, 0, 0, 0, 0x03, 0xE8, 0, 0, 0, 1, 0xAA]]\<rparr>, True)
   \<and> bit (sc_read64be (header key_1000 @ data key_1000)) 62
   \<and> \<not> bit (sc_read64be (header key_1000 @ data key_1000)) 63
   \<and> uint (take_bit 62 (sc_read64be (header key_1000 @ data key_1000))) = 1000"
proof -
  have p: "sint (pts key_1000) = 1000" by (simp add: key_1000_def)
  have a: "0 \<le> sint (pts key_1000)" "sint (pts key_1000) < 2 ^ 62" by (simp_all add: p)
  have b: "flags key_1000 AND AV_PKT_FLAG_KEY \<noteq> 0"
    by (simp add: key_1000_def AV_PKT_FLAG_KEY_def)
  have c: "length (data key_1000) < 2 ^ 31" by (simp add: key_1000_def)
  have d: "client_socket serving_sink = Some (Conn 0)" by (simp add: example_defs)
  have e: "0 < length (wire one_client)" by (simp add: one_client_def)
  have h: "header key_1000 @ data key_1000 = [0x40, 0, 0, 0, 0, 0, 0x03, 0xE8, 0, 0, 0, 1, 0xAA]"
    by (simp add: key_1000_def header_def pts_flags_def AV_NOPTS_VALUE_def AV_PKT_FLAG_KEY_def
        SC_PACKET_FLAG_KEY_FRAME_def sc_write64be_def sc_write32be_def)
  have f: "completes None 12" "completes (Some 1) (length (data key_1000))"
    by (simp_all add: completes_def key_1000_def)
  show ?thesis
    using keyframe_wire_frame[OF a b c d e f] a b c d e f
    by (simp only: h p) (simp add: one_client_def)
qed

text \<open>
  C3 as stated fails for a timestamp outside that range: for the keyframe with timestamp
  \<open>-1\<close> (not the no-timestamp sentinel) the sink sends a flag word that is all ones, so
  bit 63, the config bit, is set.
\<close>

theorem keyframe_negative_pts_counterexample:
  "sint (pts key_minus_1) = - 1 \<and> pts key_minus_1 \<noteq> AV_NOPTS_VALUE
   \<and> flags key_minus_1 AND AV_PKT_FLAG_KEY \<noteq> 0
   \<and> sc_tcp_sink_send_packet one_client serving_sink key_minus_1 None None
       = (one_client\<lparr>wire := [[0xFF, 0xFF, 0xFF, 0xFF, 0xFF, 0xFF, 0xFF, 0xFF, 0, 0, 0, 1, 0xAA]]\<rparr>, True)
   \<and> bit (sc_read64be [0xFF, 0xFF, 0xFF, 0xFF, 0xFF, 0xFF, 0xFF, 0xFF, 0, 0, 0, 1, 0xAA]) 63"
proof -
  have d: "client_socket serving_sink = Some (Conn 0)" by (simp add: example_defs)
  have e: "0 < length (wire one_client)" by (simp add: one_client_def)
  have h: "header key_minus_1 @ data key_minus_1
             = [0xFF, 0xFF, 0xFF, 0xFF, 0xFF, 0xFF, 0xFF, 0xFF, 0, 0, 0, 1, 0xAA]"
    by (simp add: key_minus_1_def header_def pts_flags_def AV_NOPTS_VALUE_def AV_PKT_FLAG_KEY_def
        SC_PACKET_FLAG_KEY_FRAME_def sc_write64be_def sc_write32be_def)
  have r: "sc_read64be (header key_minus_1 @ data key_minus_1) = pts_flags key_minus_1"
    by simp
  have f: "pts_flags key_minus_1 = 0xFFFFFFFFFFFFFFFF"
    by (simp add: key_minus_1_def pts_flags_def AV_NOPTS_VALUE_def AV_PKT_FLAG_KEY_def
        SC_PACKET_FLAG_KEY_FRAME_def)
  have "bit (sc_read64be (header key_minus_1 @ data key_minus_1)) 63"
    unfolding r f by simp
  moreover have "sint (pts key_minus_1) = - 1"
    by (simp add: key_minus_1_def)
  ultimately show ?thesis
    using send_packet_full[OF d e, where p = key_minus_1 and ca = None and cb = None]
    by (simp add: h) (simp add: key_minus_1_def AV_NOPTS_VALUE_def AV_PKT_FLAG_KEY_def one_client_def)
qed

section \<open>Open\<close>

text \<open>
  C4. \<open>open\<close> returns false if and only if the codec is neither H.264 nor HEVC. When it
  returns true it has set \<open>codec_id\<close> to \<open>0x68323634\<close> for H.264 and \<open>0x68323635\<close> for HEVC
  (big-endian, the ASCII of \<open>h264\<close> and \<open>h265\<close>), recorded the width and the height, set
  \<open>codec_sent\<close> and signalled the condition variable once; nothing else has changed.
\<close>

theorem open_result:
  "(fst (sc_tcp_sink_packet_sink_open s ctx) = False
      \<longleftrightarrow> ctx_codec_id ctx \<noteq> AV_CODEC_ID_H264 \<and> ctx_codec_id ctx \<noteq> AV_CODEC_ID_HEVC)
   \<and> (fst (sc_tcp_sink_packet_sink_open s ctx) \<longrightarrow>
        snd (sc_tcp_sink_packet_sink_open s ctx)
          = s\<lparr>codec_id := (if ctx_codec_id ctx = AV_CODEC_ID_H264 then 0x68323634 else 0x68323635),
              width := ctx_width ctx, height := ctx_height ctx, codec_sent := True,
              cond := Suc (cond s)\<rparr>)
   \<and> sc_write32be 0x68323634 = map (of_nat \<circ> of_char) ''h264''
   \<and> sc_write32be 0x68323635 = map (of_nat \<circ> of_char) ''h265''"
  by (cases "ctx_codec_id ctx")
     (simp_all add: sc_tcp_sink_packet_sink_open_def sc_cond_signal_def SC_CODEC_ID_H264_def
        SC_CODEC_ID_H265_def sc_write32be_def)

text \<open>The theorem at \<open>open(H264, 1280, 720)\<close> and at \<open>open(MPEG4, 1280, 720)\<close>.\<close>

theorem open_result_witness:
  "fst (sc_tcp_sink_packet_sink_open idle_sink h264_720p)
   \<and> snd (sc_tcp_sink_packet_sink_open idle_sink h264_720p)
       = idle_sink\<lparr>codec_id := 0x68323634, width := 1280, height := 720, codec_sent := True,
                   cond := 1\<rparr>
   \<and> fst (sc_tcp_sink_packet_sink_open idle_sink mpeg4_720p) = False"
  using open_result[of idle_sink h264_720p] open_result[of idle_sink mpeg4_720p]
  by (simp add: example_defs)

text \<open>
  C9. \<open>open\<close> with a codec that is neither H.264 nor HEVC returns false and leaves the
  sink as it was: \<open>codec_sent\<close>, \<open>codec_id\<close>, \<open>width\<close> and \<open>height\<close> are not written and the
  condition variable is not signalled.
\<close>

theorem open_unsupported_unchanged:
  assumes "ctx_codec_id ctx \<noteq> AV_CODEC_ID_H264" and "ctx_codec_id ctx \<noteq> AV_CODEC_ID_HEVC"
  shows "sc_tcp_sink_packet_sink_open s ctx = (False, s)"
  using assms by (cases "ctx_codec_id ctx") (simp_all add: sc_tcp_sink_packet_sink_open_def)

text \<open>The theorem at \<open>open(MPEG4, 1280, 720)\<close> on a sink that was just initialised.\<close>

theorem open_unsupported_unchanged_witness:
  "ctx_codec_id mpeg4_720p \<noteq> AV_CODEC_ID_H264 \<and> ctx_codec_id mpeg4_720p \<noteq> AV_CODEC_ID_HEVC
   \<and> sc_tcp_sink_packet_sink_open idle_sink mpeg4_720p = (False, idle_sink)
   \<and> codec_sent (snd (sc_tcp_sink_packet_sink_open idle_sink mpeg4_720p)) = False
   \<and> cond (snd (sc_tcp_sink_packet_sink_open idle_sink mpeg4_720p)) = 0"
proof -
  have a: "ctx_codec_id mpeg4_720p \<noteq> AV_CODEC_ID_H264" by (simp add: mpeg4_720p_def)
  have b: "ctx_codec_id mpeg4_720p \<noteq> AV_CODEC_ID_HEVC" by (simp add: mpeg4_720p_def)
  show ?thesis
    using open_unsupported_unchanged[OF a b, of idle_sink] a b by (simp add: example_defs)
qed

section \<open>Push\<close>

text \<open>
  C5. A push on a sink that is not stopped and has no client returns success. The sink
  afterwards is the sink before, except that for a packet without timestamp
  \<open>config_packet\<close> holds the result of the copy; the queue is unchanged.
\<close>

theorem push_without_client:
  assumes "\<not> stopped s" and "client_socket s = SC_SOCKET_NONE"
  shows "sc_tcp_sink_packet_sink_push s packet env
           = (True,
              if pts packet = AV_NOPTS_VALUE
              then s\<lparr>config_packet :=
                       sc_tcp_sink_packet_ref (cache_alloc_ok env) (cache_ref_ok env) packet\<rparr>
              else s)
         \<and> queue (snd (sc_tcp_sink_packet_sink_push s packet env)) = queue s"
  using assms by (simp add: sc_tcp_sink_packet_sink_push_def cache_config_def)

text \<open>The theorem at a sink that was just initialised, for a frame and for a config packet.\<close>

theorem push_without_client_witness:
  "\<not> stopped idle_sink \<and> client_socket idle_sink = SC_SOCKET_NONE
   \<and> sc_tcp_sink_packet_sink_push idle_sink frame_2000 all_ok = (True, idle_sink)
   \<and> sc_tcp_sink_packet_sink_push idle_sink config_67 all_ok
       = (True, idle_sink\<lparr>config_packet := Some config_67\<rparr>)
   \<and> queue (snd (sc_tcp_sink_packet_sink_push idle_sink config_67 all_ok)) = []"
proof -
  have a: "\<not> stopped idle_sink" by (simp add: example_defs)
  have b: "client_socket idle_sink = SC_SOCKET_NONE" by (simp add: example_defs)
  have c: "pts frame_2000 \<noteq> AV_NOPTS_VALUE" by (simp add: frame_2000_def AV_NOPTS_VALUE_def)
  have d: "pts config_67 = AV_NOPTS_VALUE" by (simp add: config_67_def)
  have e: "queue idle_sink = []" by (simp add: example_defs)
  show ?thesis
    using push_without_client[OF a b, of frame_2000 all_ok]
      push_without_client[OF a b, of config_67 all_ok] a b
    by (simp add: c d e sc_tcp_sink_packet_ref_def all_ok_def)
qed

text \<open>
  C8, as amended. \<open>push\<close> never reads \<open>codec_sent\<close>: its result is the same whether or not
  \<open>open\<close> has been called. It returns failure exactly when the sink is stopped, or a
  client is connected and the copy for the queue or the enqueue fails.
\<close>

theorem push_before_open_not_rejected:
  "fst (sc_tcp_sink_packet_sink_push (s\<lparr>codec_sent := b\<rparr>) packet env)
     = fst (sc_tcp_sink_packet_sink_push s packet env)
   \<and> (fst (sc_tcp_sink_packet_sink_push s packet env) = False
        \<longleftrightarrow> stopped s
            \<or> (client_socket s \<noteq> SC_SOCKET_NONE
               \<and> (pkt_alloc_ok env \<and> pkt_ref_ok env \<and> vecdeque_push_ok env) = False))"
  by (auto simp: sc_tcp_sink_packet_sink_push_def cache_config_def sc_tcp_sink_packet_ref_def
      split: option.splits)

text \<open>The theorem at a sink with a client on which \<open>open\<close> was never called.\<close>

theorem push_before_open_not_rejected_witness:
  "codec_sent serving_sink = False
   \<and> fst (sc_tcp_sink_packet_sink_push serving_sink key_1000 all_ok) = True
   \<and> fst (sc_tcp_sink_packet_sink_push serving_sink key_1000 no_memory) = False"
  using push_before_open_not_rejected[of False serving_sink key_1000 all_ok]
    push_before_open_not_rejected[of False serving_sink key_1000 no_memory]
  by (simp add: example_defs)

text \<open>
  C8 as stated fails: on a sink that was just initialised (\<open>open\<close> not yet called,
  \<open>codec_sent\<close> false, no client) a push returns success.
\<close>

theorem push_before_open_counterexample:
  "codec_sent idle_sink = False
   \<and> sc_tcp_sink_packet_sink_push idle_sink frame_2000 all_ok = (True, idle_sink)"
  by (simp add: example_defs sc_tcp_sink_packet_sink_push_def cache_config_def AV_NOPTS_VALUE_def)

text \<open>
  C10. When the copy of a packet without timestamp fails, \<open>push\<close> on a sink that is not
  stopped leaves \<open>config_packet\<close> null, whatever was cached before, and does not report
  it: with no client connected it returns success.
\<close>

theorem config_cache_lost_on_failed_copy:
  assumes "\<not> stopped s" and "pts packet = AV_NOPTS_VALUE"
    and "cache_alloc_ok env = False \<or> cache_ref_ok env = False"
  shows "config_packet (snd (sc_tcp_sink_packet_sink_push s packet env)) = None
         \<and> (client_socket s = SC_SOCKET_NONE \<longrightarrow>
              sc_tcp_sink_packet_sink_push s packet env = (True, s\<lparr>config_packet := None\<rparr>))"
  using assms
  by (auto simp: sc_tcp_sink_packet_sink_push_def cache_config_def sc_tcp_sink_packet_ref_def
      sc_cond_signal_def Let_def)

text \<open>The theorem at a sink that has \<open>config_67\<close> cached, for a push without memory.\<close>

theorem config_cache_lost_on_failed_copy_witness:
  "\<not> stopped (idle_sink\<lparr>config_packet := Some config_67\<rparr>)
   \<and> pts config_68 = AV_NOPTS_VALUE \<and> cache_alloc_ok no_memory = False
   \<and> sc_tcp_sink_packet_sink_push (idle_sink\<lparr>config_packet := Some config_67\<rparr>) config_68 no_memory
       = (True, idle_sink\<lparr>config_packet := None\<rparr>)"
proof -
  have a: "\<not> stopped (idle_sink\<lparr>config_packet := Some config_67\<rparr>)" by (simp add: example_defs)
  have b: "pts config_68 = AV_NOPTS_VALUE" by (simp add: config_68_def)
  have c: "cache_alloc_ok no_memory = False \<or> cache_ref_ok no_memory = False"
    by (simp add: no_memory_def)
  have d: "client_socket (idle_sink\<lparr>config_packet := Some config_67\<rparr>) = SC_SOCKET_NONE"
    by (simp add: example_defs)
  show ?thesis
    using config_cache_lost_on_failed_copy[OF a b c] a b d by (simp add: no_memory_def)
qed

section \<open>The control forwarder relays\<close>






section \<open>The stream a client reads\<close>

subsection \<open>Sends that are whole or nothing\<close>

lemma net_send_all_current:
  assumes "i < length (wire n)" and "whole_or_nothing cap"
  shows "net_send_all n (Some (Conn i)) buf len cap
           = (if cap = None \<or> len = 0
              then (n\<lparr>wire := (wire n)[i := wire n ! i @ take len buf]\<rparr>, int len)
              else (n, - 1))"
  using assms by (auto simp: net_send_all_def whole_or_nothing_def)

lemma send_packet_whole_or_nothing:
  assumes "client_socket s = Some (Conn i)" and "i < length (wire n)"
    and "whole_or_nothing c1" and "whole_or_nothing c2"
  shows "\<exists>x ok.
    sc_tcp_sink_send_packet n s p c1 c2 = (n\<lparr>wire := (wire n)[i := wire n ! i @ x]\<rparr>, ok)
    \<and> prefix x (frame p) \<and> (ok \<longrightarrow> x = frame p)"
proof (cases "c1 = None")
  case False
  with assms(3) have "c1 = Some 0" by (simp add: whole_or_nothing_def)
  then have "sc_tcp_sink_send_packet n s p c1 c2 = (n\<lparr>wire := (wire n)[i := wire n ! i @ []]\<rparr>, False)"
    using assms by (simp add: sc_tcp_sink_send_packet_def net_send_all_current)
  then show ?thesis by (intro exI[of _ "[]"] exI[of _ False]) simp
next
  case True
  show ?thesis
  proof (cases "c2 = None \<or> data p = []")
    case True
    with \<open>c1 = None\<close> have "sc_tcp_sink_send_packet n s p c1 c2
        = (n\<lparr>wire := (wire n)[i := wire n ! i @ frame p]\<rparr>, True)"
      using assms by (auto simp: sc_tcp_sink_send_packet_def net_send_all_current frame_def)
    then show ?thesis by (intro exI[of _ "frame p"] exI[of _ True]) simp
  next
    case False
    with assms(4) have "c2 = Some 0" "data p \<noteq> []" by (auto simp: whole_or_nothing_def)
    with \<open>c1 = None\<close> have "sc_tcp_sink_send_packet n s p c1 c2
        = (n\<lparr>wire := (wire n)[i := wire n ! i @ header p]\<rparr>, False)"
      using assms by (simp add: sc_tcp_sink_send_packet_def net_send_all_current)
    then show ?thesis by (intro exI[of _ "header p"] exI[of _ False]) (simp add: frame_def)
  qed
qed

lemma send_codec_info_whole_or_nothing:
  assumes "client_socket s = Some (Conn i)" and "i < length (wire n)"
    and "whole_or_nothing c1" and "whole_or_nothing c2"
  shows "\<exists>x ok.
    sc_tcp_sink_send_codec_info n s c1 c2 = (n\<lparr>wire := (wire n)[i := wire n ! i @ x]\<rparr>, ok)
    \<and> prefix x (codec_info s) \<and> (ok \<longrightarrow> x = codec_info s)"
proof (cases "c1 = None")
  case False
  with assms(3) have "c1 = Some 0" by (simp add: whole_or_nothing_def)
  then have "sc_tcp_sink_send_codec_info n s c1 c2 = (n\<lparr>wire := (wire n)[i := wire n ! i @ []]\<rparr>, False)"
    using assms by (simp add: sc_tcp_sink_send_codec_info_def net_send_all_current)
  then show ?thesis by (intro exI[of _ "[]"] exI[of _ False]) simp
next
  case True
  show ?thesis
  proof (cases "c2 = None")
    case True
    with \<open>c1 = None\<close> have "sc_tcp_sink_send_codec_info n s c1 c2
        = (n\<lparr>wire := (wire n)[i := wire n ! i @ codec_info s]\<rparr>, True)"
      using assms
      by (simp add: sc_tcp_sink_send_codec_info_def net_send_all_current codec_info_def)
    then show ?thesis by (intro exI[of _ "codec_info s"] exI[of _ True]) simp
  next
    case False
    with assms(4) have "c2 = Some 0" by (simp add: whole_or_nothing_def)
    with \<open>c1 = None\<close> have "sc_tcp_sink_send_codec_info n s c1 c2
        = (n\<lparr>wire := (wire n)[i := wire n ! i @ sc_write32be (codec_id s)]\<rparr>, False)"
      using assms by (simp add: sc_tcp_sink_send_codec_info_def net_send_all_current)
    then show ?thesis
      by (intro exI[of _ "sc_write32be (codec_id s)"] exI[of _ False])
         (simp add: codec_info_def)
  qed
qed

text \<open>
  A short write is another matter. \<^verbatim>\<open>sc_tcp_sink_send_packet\<close> tests the result of
  \<^verbatim>\<open>net_send_all\<close> for \<open>< 0\<close> only, so a send that stops after some bytes counts as done:
  here the header stops after 5 of its 12 bytes, the payload is sent behind them, and the
  function returns true. (The control forwarder compares the result with the length.)
  The results below are about schedules without short writes.
\<close>

lemma short_write_taken_for_success:
  "sc_tcp_sink_send_packet one_client serving_sink key_1000 (Some 5) None
     = (one_client\<lparr>wire := [[0x40, 0, 0, 0, 0, 0xAA]]\<rparr>, True)"
  by (simp add: sc_tcp_sink_send_packet_def net_send_all_def example_defs header_def
      pts_flags_def sc_write32be_def sc_write64be_def AV_NOPTS_VALUE_def AV_PKT_FLAG_KEY_def
      SC_PACKET_FLAG_KEY_FRAME_def)

subsection \<open>Lists with one entry per connection\<close>

lemma list_all2_last_update:
  assumes "list_all2 P W L" and "Suc i = length W" and "P x (last L)"
  shows "list_all2 P (W[i := x]) L"
proof -
  have len: "length W = length L" using assms(1) by (rule list_all2_lengthD)
  with assms(2) have "L \<noteq> []" by auto
  moreover have "length L - 1 = i" using assms(2) len by simp
  ultimately have "last L = L ! i"
    using last_conv_nth[of L] by simp
  then have "L[i := last L] = L" by simp
  moreover have "list_all2 P (W[i := x]) (L[i := last L])"
    using assms(1,3) by (rule list_all2_update_cong)
  ultimately show ?thesis by simp
qed


lemma last_update_last:
  "Suc i = length W \<Longrightarrow> last (W[i := x]) = x"
  by (cases "W = []") (auto simp: last_list_update)

lemma nth_last:
  assumes "Suc i = length L"
  shows "L ! i = last L"
proof -
  from assms have "L \<noteq> []" by auto
  moreover have "length L - 1 = i" using assms by simp
  ultimately show ?thesis using last_conv_nth[of L] by simp
qed

lemma at_client_same:
  assumes "\<And>a. f a = a"
  shows "at_client s f L = L"
  by (simp add: at_client_def assms split: option.splits sock.splits)

lemma at_client_last:
  assumes "s = Some (Conn i)" and "Suc i = length L"
  shows "at_client s f L = L[i := f (last L)]"
  using assms nth_last[OF assms(2)] by (simp add: at_client_def)

lemma length_at_client [simp]: "length (at_client s f L) = length L"
  by (simp add: at_client_def split: option.splits sock.splits)

lemma frames_append [simp]: "frames (ps @ qs) = frames ps @ frames qs"
  by (simp add: frames_def)

lemma frames_Cons [simp]: "frames (p # ps) = frame p @ frames ps"
  by (simp add: frames_def)

lemma frames_Nil [simp]: "frames [] = []"
  by (simp add: frames_def)





subsection \<open>What a step leaves as it is\<close>

lemma net_send_all_length [simp]:
  "length (wire (fst (net_send_all n s buf len cap))) = length (wire n)"
  by (auto simp: net_send_all_def Let_def split: option.splits sock.splits)

lemma send_packet_length [simp]:
  "length (wire (fst (sc_tcp_sink_send_packet n s p c1 c2))) = length (wire n)"
  by (simp add: sc_tcp_sink_send_packet_def case_prod_beta Let_def)

lemma send_codec_info_length [simp]:
  "length (wire (fst (sc_tcp_sink_send_codec_info n s c1 c2))) = length (wire n)"
  by (simp add: sc_tcp_sink_send_codec_info_def case_prod_beta Let_def)

lemma run_tcp_sink_config [simp]:
  "config_packet (sink (run_tcp_sink st w)) = config_packet (sink st)"
  by (cases "pc st")
     (simp_all add: run_tcp_sink_def Let_def case_prod_beta drop_client_def
        split: option.splits list.splits)

lemma run_tcp_sink_length:
  assumes "pc st \<noteq> W_accept"
  shows "length (wire (network (run_tcp_sink st w))) = length (wire (network st))"
  using assms
  by (cases "pc st")
     (simp_all add: run_tcp_sink_def Let_def case_prod_beta net_close_def drop_client_def
        split: option.splits list.splits)

lemma not_accepts_Work:
  assumes "pc st \<noteq> W_accept"
  shows "\<not> accepts st (Work w)"
  by (simp add: accepts_def run_tcp_sink_length[OF assms])

lemma push_client_socket [simp]:
  "client_socket (snd (sc_tcp_sink_packet_sink_push s p env)) = client_socket s"
  by (auto simp: sc_tcp_sink_packet_sink_push_def cache_config_def sc_cond_signal_def Let_def
      split: option.splits)


lemma open_fields [simp]:
  "client_socket (snd (sc_tcp_sink_packet_sink_open s ctx)) = client_socket s"
  "queue (snd (sc_tcp_sink_packet_sink_open s ctx)) = queue s"
  "config_packet (snd (sc_tcp_sink_packet_sink_open s ctx)) = config_packet s"
  "stopped (snd (sc_tcp_sink_packet_sink_open s ctx)) = stopped s"
  by (cases "ctx_codec_id ctx"; simp add: sc_tcp_sink_packet_sink_open_def sc_cond_signal_def)+

lemma close_fields [simp]:
  "client_socket (sc_tcp_sink_packet_sink_close s) = client_socket s"
  "queue (sc_tcp_sink_packet_sink_close s) = queue s"
  "config_packet (sc_tcp_sink_packet_sink_close s) = config_packet s"
  by (simp_all add: sc_tcp_sink_packet_sink_close_def sc_cond_signal_def)

lemma stop_fields [simp]:
  "pc (sc_tcp_sink_stop st) = pc st"
  "wire (network (sc_tcp_sink_stop st)) = wire (network st)"
  "client_socket (sink (sc_tcp_sink_stop st)) = client_socket (sink st)"
  "queue (sink (sc_tcp_sink_stop st)) = queue (sink st)"
  "config_packet (sink (sc_tcp_sink_stop st)) = config_packet (sink st)"
  by (simp_all add: sc_tcp_sink_stop_def sc_cond_signal_def net_interrupt_def Let_def
      split: option.splits)

lemma drop_client_fields [simp]:
  "pc (drop_client st q) = q"
  "wire (network (drop_client st q)) = wire (network st)"
  "config_packet (sink (drop_client st q)) = config_packet (sink st)"
  "queue (sink (drop_client st q)) = queue (sink st)"
  "client_socket (sink (drop_client st q)) = SC_SOCKET_NONE"
  "stopped (sink (drop_client st q)) = stopped (sink st)"
  by (simp_all add: drop_client_def net_close_def split: option.splits)

text \<open>
  An event of the upstream thread or of the owner writes nothing and leaves the client
  socket as it is. It leaves the worker where it is, unless it is a push that frees the
  cached packet the worker points to.
\<close>

lemma upstream_cases:
  assumes "\<And>w. e \<noteq> Work w"
  obtains ctx where "e = Open ctx" | p env where "e = Push p env" | "e = Close" | "e = Stop"
  using assms by (cases e) auto

lemma upstream_fields:
  assumes "\<And>w. e \<noteq> Work w"
  shows "wire (network (step st e)) = wire (network st)"
    and "client_socket (sink (step st e)) = client_socket (sink st)"
    and "pc (step st e) = pc st
         \<or> (\<exists>c. pc st = W_send_cfg c) \<and> pc (step st e) = W_send_cfg_freed"
    and "\<not> accepts st e" and "greets st e = []" and "info_sent st e = []"
proof -
  show "wire (network (step st e)) = wire (network st)"
    using assms by (cases rule: upstream_cases) simp_all
  then show "\<not> accepts st e" by (simp add: accepts_def)
  show "client_socket (sink (step st e)) = client_socket (sink st)"
    using assms by (cases rule: upstream_cases) simp_all
  show "pc (step st e) = pc st
      \<or> (\<exists>c. pc st = W_send_cfg c) \<and> pc (step st e) = W_send_cfg_freed"
    using assms by (cases rule: upstream_cases; cases "pc st") (simp_all add: dangling_def)
  show "greets st e = []"
    using assms by (cases rule: upstream_cases) (simp_all add: greets_def)
  show "info_sent st e = []"
    using assms by (cases rule: upstream_cases) (simp_all add: info_sent_def)
qed


lemma pushes_Work [simp]: "pushes st (Work w) = []"
  by (simp add: pushes_def)

lemma accounts_same [simp]: "map (\<lambda>a. (fst a, snd a @ [])) L = L"
  by (induction L) simp_all

subsection \<open>Events of the upstream thread keep the invariant\<close>

lemma current_send:
  assumes "current st"
  obtains i where "client_socket (sink st) = Some (Conn i)"
    and "Suc i = length (wire (network st))"
    and "i < length (wire (network st))"
    and "wire (network st) ! i = last (wire (network st))"
proof -
  from assms obtain i where i: "client_socket (sink st) = Some (Conn i)"
    "Suc i = length (wire (network st))"
    by (auto simp: current_def split: option.splits sock.splits)
  then have "wire (network st) ! i = last (wire (network st))"
    using nth_last[of i "wire (network st)"] by simp
  with i show ?thesis using that[of i] by simp
qed

lemma current_same:
  assumes "client_socket (sink st') = client_socket (sink st)"
    and "length (wire (network st')) = length (wire (network st))"
  shows "current st' = current st"
  unfolding current_def assms ..






subsection \<open>Steps of the worker keep the invariant\<close>























subsection \<open>A second client after a failed send\<close>

lemmas sink_defs = run_def started_def sc_tcp_sink_init_def run_tcp_sink_def
  sc_tcp_sink_packet_sink_open_def sc_tcp_sink_packet_sink_push_def cache_config_def
  sc_cond_signal_def net_accept_def sc_tcp_sink_send_codec_info_def net_send_all_def
  sc_tcp_sink_send_packet_def drop_client_def net_close_def sc_tcp_sink_packet_ref_def
  config_freed_def dangling_def
  fresh_mem_def fine_def broken_def all_ok_def h264_720p_def

lemmas wire_defs = header_def pts_flags_def sc_write32be_def sc_write64be_def
  AV_NOPTS_VALUE_def AV_PKT_FLAG_KEY_def SC_PACKET_FLAG_KEY_FRAME_def SC_PACKET_FLAG_CONFIG_def
  SC_CODEC_ID_H264_def key_1000_def frame_2000_def config_67_def config_68_def scribble_def

lemmas log_defs = log_step_def at_client_def accepts_def pushes_def greets_def codec_info_def
  frame_def uses_freed_def codec_headers_def codec_headers_step_def info_sent_def

lemma second_client_wire:
  "wire (network (run (started fresh_mem 27183) second_client))
     = [[0x68, 0x32, 0x36, 0x34, 0, 0, 5, 0, 0, 0, 2, 0xD0],
        [0x68, 0x32, 0x36, 0x34, 0, 0, 5, 0, 0, 0, 2, 0xD0,
         0, 0, 0, 0, 0, 0, 0x07, 0xD0, 0, 0, 0, 2, 0xBB, 0xCC]]"
  by (simp add: second_client_def sink_defs wire_defs)





text \<open>
  The worker's pointer to the cached packet can dangle. At the schedule \<open>config_race\<close>
  the worker reads the pointer to the cached \<open>config_67\<close>, a push of \<open>config_68\<close> frees
  that packet, and the worker sends through its pointer: the client is sent the codec
  header and then the frame of what the freed memory holds (here \<open>scribble\<close>), a frame of
  neither config packet.
\<close>

lemma use_after_free_reachable:
  "pc (run (started fresh_mem 27183) (butlast config_race)) = W_send_cfg_freed"
  "\<not> no_use_after_free (started fresh_mem 27183) config_race"
  "wire (network (run (started fresh_mem 27183) config_race))
     = [[0x68, 0x32, 0x36, 0x34, 0, 0, 5, 0, 0, 0, 2, 0xD0,
         0x5A, 0x5A, 0x5A, 0x5A, 0x5A, 0x5A, 0x5A, 0x5A, 0, 0, 0, 1, 0x5A]]"
  "owed (started fresh_mem 27183) config_race
     = [([0x68, 0x32, 0x36, 0x34, 0, 0, 5, 0, 0, 0, 2, 0xD0,
          0x80, 0, 0, 0, 0, 0, 0, 0, 0, 0, 0, 1, 0x67], [config_68])]"
  by (simp_all add: config_race_def owed_def log_defs sink_defs wire_defs)





section \<open>The codec header\<close>

subsection \<open>Every connection is headed by one codec header\<close>

lemma header_inv_parts:
  assumes "header_inv st H"
  shows "list_all2 headed (wire (network st)) H"
    and "length H = length (wire (network st))"
proof -
  show "list_all2 headed (wire (network st)) H"
    using assms by (simp add: header_inv_def)
  then show "length H = length (wire (network st))"
    by (simp add: list_all2_lengthD)
qed

lemma header_inv_idle:
  assumes "list_all2 headed (wire (network st')) H"
    and "pc st' = W_init \<or> pc st' = W_loop \<or> pc st' = W_accept \<or> pc st' = W_close
         \<or> pc st' = W_cleanup \<or> (\<exists>r. pc st' = W_done r)"
  shows "header_inv st' H"
  using assms by (auto simp: header_inv_def)

lemma header_inv_waiting:
  assumes "list_all2 headed (wire (network st')) H"
    and "pc st' = W_accepted \<or> pc st' = W_wait \<or> pc st' = W_waited \<or> pc st' = W_info"
    and "current st'" and "last (wire (network st')) = []" and "last H = []"
  shows "header_inv st' H"
  using assms by (auto simp: header_inv_def)

lemma header_inv_past:
  assumes "list_all2 headed (wire (network st')) H"
    and "pc st' = W_cfg \<or> (\<exists>c. pc st' = W_send_cfg c) \<or> pc st' = W_send_cfg_freed
         \<or> pc st' = W_stream \<or> (\<exists>p. pc st' = W_send p)"
    and "current st'" and "length (last H) = 12"
    and "prefix (last H) (last (wire (network st')))"
  shows "header_inv st' H"
  using assms by (auto simp: header_inv_def)

lemma header_inv_past_parts:
  assumes "header_inv st H"
    and "pc st = W_cfg \<or> (\<exists>c. pc st = W_send_cfg c) \<or> pc st = W_send_cfg_freed
         \<or> pc st = W_stream \<or> (\<exists>p. pc st = W_send p)"
  shows "current st" and "length (last H) = 12"
    and "prefix (last H) (last (wire (network st)))"
  using assms by (auto simp: header_inv_def)

lemma header_inv_waiting_parts:
  assumes "header_inv st H"
    and "pc st = W_accepted \<or> pc st = W_wait \<or> pc st = W_waited \<or> pc st = W_info"
  shows "current st" and "last (wire (network st)) = []" and "last H = []"
  using assms by (auto simp: header_inv_def)

lemma headed_sent:
  assumes "length h = 12" and "prefix h w"
  shows "headed (w @ x) h"
proof -
  from assms(1) have "h \<noteq> []" by auto
  moreover from assms(2) have "prefix h (w @ x)" by (rule prefix_prefix)
  ultimately show ?thesis using assms(1) by (simp add: headed_def)
qed

lemma header_inv_upstream:
  assumes inv: "header_inv st H" and e: "\<And>w. e \<noteq> Work w"
  shows "header_inv (step st e) (codec_headers_step st e H)"
proof -
  note f = upstream_fields[OF e, of st]
  have log: "codec_headers_step st e H = H"
    using f(4,6) by (simp add: codec_headers_step_def at_client_same)
  have cur: "current (step st e) = current st"
    by (rule current_same) (simp_all add: f(1,2))
  from f(3) have "header_inv (step st e) H"
  proof
    assume "pc (step st e) = pc st"
    with inv show ?thesis
      unfolding header_inv_def cur f(1) by simp
  next
    assume "(\<exists>c. pc st = W_send_cfg c) \<and> pc (step st e) = W_send_cfg_freed"
    then obtain c where c: "pc st = W_send_cfg c" and fr: "pc (step st e) = W_send_cfg_freed"
      by blast
    from c have past: "pc st = W_cfg \<or> (\<exists>c. pc st = W_send_cfg c) \<or> pc st = W_send_cfg_freed
         \<or> pc st = W_stream \<or> (\<exists>p. pc st = W_send p)" by simp
    show ?thesis
      using header_inv_parts(1)[OF inv] header_inv_past_parts[OF inv past] fr
      by (intro header_inv_past) (simp_all add: f(1) cur)
  qed
  then show ?thesis by (simp add: log)
qed

lemma codec_headers_step_plain:
  assumes "pc st \<noteq> W_info" and "pc st \<noteq> W_accept"
  shows "codec_headers_step st (Work w) H = H"
proof -
  have "info_sent st (Work w) = []"
    using assms(1) by (cases "pc st") (simp_all add: info_sent_def)
  then show ?thesis
    using assms(2) by (simp add: codec_headers_step_def at_client_same not_accepts_Work)
qed

text \<open>The worker's step, place by place.\<close>

lemma head_accept:
  assumes inv: "header_inv st H" and pc: "pc st = W_accept"
  shows "header_inv (run_tcp_sink st w) (codec_headers_step st (Work w) H)"
proof (cases "accept_ok w")
  case False
  then have st': "run_tcp_sink st w
      = (if stopped (sink st)
         then st\<lparr>sink := (sink st)\<lparr>client_socket := SC_SOCKET_NONE\<rparr>, pc := W_cleanup\<rparr>
         else st\<lparr>sink := (sink st)\<lparr>client_socket := SC_SOCKET_NONE\<rparr>, pc := W_loop\<rparr>)"
    by (simp add: run_tcp_sink_def pc net_accept_def Let_def)
  have acc: "\<not> accepts st (Work w)"
    by (simp add: accepts_def st')
  have "header_inv (run_tcp_sink st w) H"
    using header_inv_parts(1)[OF inv] by (intro header_inv_idle) (auto simp: st' split: if_splits)
  then show ?thesis
    by (simp add: codec_headers_step_def acc at_client_same info_sent_def pc)
next
  case True
  let ?W = "wire (network st)"
  from True have st': "run_tcp_sink st w
      = st\<lparr>sink := (sink st)\<lparr>client_socket := Some (Conn (length ?W))\<rparr>,
           network := (network st)\<lparr>wire := ?W @ [[]]\<rparr>, pc := W_accepted\<rparr>"
    by (simp add: run_tcp_sink_def pc net_accept_def Let_def)
  have acc: "accepts st (Work w)"
    by (simp add: accepts_def st')
  have "headed [] []" by (simp add: headed_def)
  then have "list_all2 headed (?W @ [[]]) (H @ [[]])"
    using header_inv_parts(1)[OF inv] by (intro list_all2_appendI) simp_all
  then have "header_inv (run_tcp_sink st w) (H @ [[]])"
    by (simp add: header_inv_def st' current_def)
  then show ?thesis
    by (simp add: codec_headers_step_def acc at_client_same info_sent_def pc)
qed

lemma head_info:
  assumes inv: "header_inv st H" and pc: "pc st = W_info"
    and caps: "whole_or_nothing (cap1 w)" "whole_or_nothing (cap2 w)"
  shows "header_inv (run_tcp_sink st w) (codec_headers_step st (Work w) H)"
proof -
  let ?W = "wire (network st)"
  let ?h = "codec_info (sink st)"
  from inv pc have cur: "current st" and empty: "last ?W = []" and lastH: "last H = []"
    by (simp_all add: header_inv_def)
  from cur obtain i where i: "client_socket (sink st) = Some (Conn i)" "Suc i = length ?W"
    "i < length ?W" "?W ! i = last ?W"
    by (rule current_send)
  have iH: "Suc i = length H" using i(2) header_inv_parts(2)[OF inv] by simp
  have log: "codec_headers_step st (Work w) H = H[i := ?h]"
    using at_client_last[OF i(1) iH] lastH
    by (simp add: codec_headers_step_def info_sent_def pc not_accepts_Work)
  obtain x ok where
    send: "sc_tcp_sink_send_codec_info (network st) (sink st) (cap1 w) (cap2 w)
             = ((network st)\<lparr>wire := ?W[i := x]\<rparr>, ok)"
    and x: "prefix x ?h" and ok: "ok \<Longrightarrow> x = ?h"
    using send_codec_info_whole_or_nothing[OF i(1) i(3) caps] by (auto simp: i(4) empty)
  have "?h \<noteq> []" by (simp add: codec_info_def sc_write32be_def)
  then have "headed x ?h"
    using x by (simp add: headed_def)
  with header_inv_parts(1)[OF inv] have all: "list_all2 headed (?W[i := x]) (H[i := ?h])"
    by (rule list_all2_update_cong)
  show ?thesis
  proof (cases ok)
    case False
    then have st': "run_tcp_sink st w = drop_client (st\<lparr>network := (network st)\<lparr>wire := ?W[i := x]\<rparr>\<rparr>) W_loop"
      by (simp add: run_tcp_sink_def pc send Let_def)
    show ?thesis
      unfolding log using all by (intro header_inv_idle) (simp_all add: st')
  next
    case True
    then have st': "run_tcp_sink st w = st\<lparr>network := (network st)\<lparr>wire := ?W[i := x]\<rparr>, pc := W_cfg\<rparr>"
      by (simp add: run_tcp_sink_def pc send Let_def)
    have "current (run_tcp_sink st w) = current st"
      by (rule current_same) (simp_all add: st')
    with cur have "current (run_tcp_sink st w)" by simp
    then show ?thesis
      unfolding log using all ok[OF True] i(2) iH
      by (intro header_inv_past) (simp_all add: st' last_update_last)
  qed
qed

lemma head_next_waiting:
  assumes inv: "header_inv st H"
    and pc: "pc st = W_accepted \<or> pc st = W_wait \<or> pc st = W_waited"
    and q: "q = W_info \<or> q = W_wait \<or> q = W_waited"
  shows "header_inv (st\<lparr>pc := q\<rparr>) H"
proof -
  from pc have w: "pc st = W_accepted \<or> pc st = W_wait \<or> pc st = W_waited \<or> pc st = W_info"
    by blast
  note rel = header_inv_waiting_parts[OF inv w]
  have "current (st\<lparr>pc := q\<rparr>) = current st"
    by (rule current_same) simp_all
  with rel(1) have "current (st\<lparr>pc := q\<rparr>)" by simp
  then show ?thesis
    using header_inv_parts(1)[OF inv] rel q by (intro header_inv_waiting) auto
qed

lemma head_waiting:
  assumes inv: "header_inv st H"
    and pc: "pc st = W_accepted \<or> pc st = W_wait \<or> pc st = W_waited"
  shows "header_inv (run_tcp_sink st w) (codec_headers_step st (Work w) H)"
proof -
  from pc have log: "codec_headers_step st (Work w) H = H"
    by (intro codec_headers_step_plain) auto
  from pc consider "pc st = W_accepted" | "pc st = W_wait"
    | "pc st = W_waited" "stopped (sink st)" | "pc st = W_waited" "\<not> stopped (sink st)"
    by blast
  then show ?thesis
  proof cases
    case 1
    then have st': "run_tcp_sink st w
        = st\<lparr>pc := (if codec_sent (sink st) then W_info else W_wait)\<rparr>"
      by (simp add: run_tcp_sink_def Let_def)
    show ?thesis
      unfolding st' log using inv pc by (rule head_next_waiting) simp
  next
    case 2
    then have st': "run_tcp_sink st w
        = st\<lparr>pc := (if \<not> codec_sent (sink st) \<and> \<not> stopped (sink st) then W_wait else W_waited)\<rparr>"
      by (simp add: run_tcp_sink_def Let_def)
    show ?thesis
      unfolding st' log using inv pc by (rule head_next_waiting) simp
  next
    case 3
    then have st': "run_tcp_sink st w = drop_client st W_cleanup"
      by (simp add: run_tcp_sink_def Let_def)
    show ?thesis
      unfolding st' log using header_inv_parts(1)[OF inv] by (intro header_inv_idle) simp_all
  next
    case 4
    then have st': "run_tcp_sink st w = st\<lparr>pc := W_info\<rparr>"
      by (simp add: run_tcp_sink_def Let_def)
    show ?thesis
      unfolding st' log using inv pc by (rule head_next_waiting) simp
  qed
qed

lemma head_cfg:
  assumes inv: "header_inv st H" and pc: "pc st = W_cfg"
  shows "header_inv (run_tcp_sink st w) (codec_headers_step st (Work w) H)"
proof -
  have log: "codec_headers_step st (Work w) H = H"
    by (rule codec_headers_step_plain) (simp_all add: pc)
  from pc have past: "pc st = W_cfg \<or> (\<exists>c. pc st = W_send_cfg c) \<or> pc st = W_send_cfg_freed
       \<or> pc st = W_stream \<or> (\<exists>p. pc st = W_send p)" by simp
  note rel = header_inv_past_parts[OF inv past]
  have st': "run_tcp_sink st w
      = st\<lparr>pc := (case config_packet (sink st) of Some c \<Rightarrow> W_send_cfg c | None \<Rightarrow> W_stream)\<rparr>"
    by (simp add: run_tcp_sink_def pc Let_def split: option.splits)
  have "current (run_tcp_sink st w) = current st"
    by (rule current_same) (simp_all add: st')
  with rel(1) have "current (run_tcp_sink st w)" by simp
  then show ?thesis
    unfolding log using header_inv_parts(1)[OF inv] rel(2,3)
    by (intro header_inv_past) (simp_all add: st' split: option.splits)
qed

lemma head_stream:
  assumes inv: "header_inv st H" and pc: "pc st = W_stream"
  shows "header_inv (run_tcp_sink st w) (codec_headers_step st (Work w) H)"
proof -
  have log: "codec_headers_step st (Work w) H = H"
    by (rule codec_headers_step_plain) (simp_all add: pc)
  from pc have past: "pc st = W_cfg \<or> (\<exists>c. pc st = W_send_cfg c) \<or> pc st = W_send_cfg_freed
       \<or> pc st = W_stream \<or> (\<exists>p. pc st = W_send p)" by simp
  note rel = header_inv_past_parts[OF inv past]
  show ?thesis
  proof (cases "stopped (sink st)")
    case True
    then have st': "run_tcp_sink st w = st\<lparr>pc := W_close\<rparr>"
      by (simp add: run_tcp_sink_def pc Let_def)
    show ?thesis
      unfolding log using header_inv_parts(1)[OF inv] by (intro header_inv_idle) (simp_all add: st')
  next
    case False
    show ?thesis
    proof (cases "queue (sink st)")
      case Nil
      with False have "run_tcp_sink st w = st"
        by (simp add: run_tcp_sink_def pc Let_def)
      with inv show ?thesis by (simp add: log)
    next
      case (Cons p rest)
      with False have st': "run_tcp_sink st w
          = st\<lparr>sink := (sink st)\<lparr>queue := rest\<rparr>, pc := W_send p\<rparr>"
        by (simp add: run_tcp_sink_def pc Let_def)
      have "current (run_tcp_sink st w) = current st"
        by (rule current_same) (simp_all add: st')
      with rel(1) have "current (run_tcp_sink st w)" by simp
      then show ?thesis
        unfolding log using header_inv_parts(1)[OF inv] rel(2,3)
        by (intro header_inv_past) (simp_all add: st')
    qed
  qed
qed

text \<open>
  A send of a packet behind the codec header, whatever the packet (the cached one, the
  one popped from the queue, or what freed memory holds), and the two ways the worker
  goes on after it.
\<close>

lemma head_packet_sent:
  assumes inv: "header_inv st H"
    and past: "pc st = W_cfg \<or> (\<exists>c. pc st = W_send_cfg c) \<or> pc st = W_send_cfg_freed
         \<or> pc st = W_stream \<or> (\<exists>p. pc st = W_send p)"
    and caps: "whole_or_nothing (cap1 w)" "whole_or_nothing (cap2 w)"
  obtains n1 ok where
    "sc_tcp_sink_send_packet (network st) (sink st) q (cap1 w) (cap2 w) = (n1, ok)"
    and "header_inv (st\<lparr>network := n1, pc := W_stream\<rparr>) H"
    and "header_inv (st\<lparr>network := n1, pc := W_close\<rparr>) H"
    and "header_inv (drop_client (st\<lparr>network := n1\<rparr>) W_loop) H"
proof -
  let ?W = "wire (network st)"
  note rel = header_inv_past_parts[OF inv past]
  from rel(1) obtain i where i: "client_socket (sink st) = Some (Conn i)" "Suc i = length ?W"
    "i < length ?W" "?W ! i = last ?W"
    by (rule current_send)
  obtain x ok where
    send: "sc_tcp_sink_send_packet (network st) (sink st) q (cap1 w) (cap2 w)
             = ((network st)\<lparr>wire := ?W[i := last ?W @ x]\<rparr>, ok)"
    using send_packet_whole_or_nothing[OF i(1) i(3) caps, of q] by (auto simp: i(4))
  let ?n1 = "(network st)\<lparr>wire := ?W[i := last ?W @ x]\<rparr>"
  have "headed (last ?W @ x) (last H)"
    using rel(2,3) by (rule headed_sent)
  with header_inv_parts(1)[OF inv] i(2) have all: "list_all2 headed (?W[i := last ?W @ x]) H"
    by (rule list_all2_last_update)
  have "current (st\<lparr>network := ?n1, pc := W_stream\<rparr>) = current st"
    by (rule current_same) simp_all
  with rel(1) have cur: "current (st\<lparr>network := ?n1, pc := W_stream\<rparr>)" by simp
  have pre: "prefix (last H) (last ?W @ x)"
    using rel(3) by (rule prefix_prefix)
  have 1: "header_inv (st\<lparr>network := ?n1, pc := W_stream\<rparr>) H"
    using all cur rel(2) pre i(2)
    by (intro header_inv_past) (simp_all add: last_update_last)
  have 2: "header_inv (st\<lparr>network := ?n1, pc := W_close\<rparr>) H"
    using all by (intro header_inv_idle) simp_all
  have 3: "header_inv (drop_client (st\<lparr>network := ?n1\<rparr>) W_loop) H"
    using all by (intro header_inv_idle) simp_all
  from send 1 2 3 show ?thesis by (rule that)
qed

lemma head_send_cfg:
  assumes inv: "header_inv st H" and pc: "pc st = W_send_cfg c"
    and caps: "whole_or_nothing (cap1 w)" "whole_or_nothing (cap2 w)"
  shows "header_inv (run_tcp_sink st w) (codec_headers_step st (Work w) H)"
proof -
  have log: "codec_headers_step st (Work w) H = H"
    by (rule codec_headers_step_plain) (simp_all add: pc)
  from pc have past: "pc st = W_cfg \<or> (\<exists>c. pc st = W_send_cfg c) \<or> pc st = W_send_cfg_freed
       \<or> pc st = W_stream \<or> (\<exists>p. pc st = W_send p)" by simp
  from inv past caps obtain n1 ok where
    send: "sc_tcp_sink_send_packet (network st) (sink st) c (cap1 w) (cap2 w) = (n1, ok)"
    and 1: "header_inv (st\<lparr>network := n1, pc := W_stream\<rparr>) H"
    and 3: "header_inv (drop_client (st\<lparr>network := n1\<rparr>) W_loop) H"
    by (rule head_packet_sent)
  show ?thesis
    unfolding log using 1 3 by (cases ok) (simp_all add: run_tcp_sink_def pc send Let_def)
qed

lemma head_send_cfg_freed:
  assumes inv: "header_inv st H" and pc: "pc st = W_send_cfg_freed"
    and caps: "whole_or_nothing (cap1 w)" "whole_or_nothing (cap2 w)"
  shows "header_inv (run_tcp_sink st w) (codec_headers_step st (Work w) H)"
proof -
  have log: "codec_headers_step st (Work w) H = H"
    by (rule codec_headers_step_plain) (simp_all add: pc)
  from pc have past: "pc st = W_cfg \<or> (\<exists>c. pc st = W_send_cfg c) \<or> pc st = W_send_cfg_freed
       \<or> pc st = W_stream \<or> (\<exists>p. pc st = W_send p)" by simp
  from inv past caps obtain n1 ok where
    send: "sc_tcp_sink_send_packet (network st) (sink st) (freed_read w) (cap1 w) (cap2 w)
             = (n1, ok)"
    and 1: "header_inv (st\<lparr>network := n1, pc := W_stream\<rparr>) H"
    and 3: "header_inv (drop_client (st\<lparr>network := n1\<rparr>) W_loop) H"
    by (rule head_packet_sent)
  show ?thesis
    unfolding log using 1 3 by (cases ok) (simp_all add: run_tcp_sink_def pc send Let_def)
qed

lemma head_send:
  assumes inv: "header_inv st H" and pc: "pc st = W_send q"
    and caps: "whole_or_nothing (cap1 w)" "whole_or_nothing (cap2 w)"
  shows "header_inv (run_tcp_sink st w) (codec_headers_step st (Work w) H)"
proof -
  have log: "codec_headers_step st (Work w) H = H"
    by (rule codec_headers_step_plain) (simp_all add: pc)
  from pc have past: "pc st = W_cfg \<or> (\<exists>c. pc st = W_send_cfg c) \<or> pc st = W_send_cfg_freed
       \<or> pc st = W_stream \<or> (\<exists>p. pc st = W_send p)" by simp
  from inv past caps obtain n1 ok where
    send: "sc_tcp_sink_send_packet (network st) (sink st) q (cap1 w) (cap2 w) = (n1, ok)"
    and 1: "header_inv (st\<lparr>network := n1, pc := W_stream\<rparr>) H"
    and 2: "header_inv (st\<lparr>network := n1, pc := W_close\<rparr>) H"
    by (rule head_packet_sent)
  show ?thesis
    unfolding log using 1 2 by (cases ok) (simp_all add: run_tcp_sink_def pc send Let_def)
qed

lemma head_idle:
  assumes inv: "header_inv st H"
    and pc: "pc st = W_init \<or> pc st = W_loop \<or> pc st = W_close \<or> pc st = W_cleanup
             \<or> (\<exists>r. pc st = W_done r)"
  shows "header_inv (run_tcp_sink st w) (codec_headers_step st (Work w) H)"
proof -
  from pc consider "pc st = W_init" | "pc st = W_loop" | "pc st = W_close" | "pc st = W_cleanup"
    | r where "pc st = W_done r" by blast
  note places = this
  have log: "codec_headers_step st (Work w) H = H"
    using places by cases (simp_all add: codec_headers_step_plain)
  have wire: "wire (network (run_tcp_sink st w)) = wire (network st)"
    using places
    by cases (simp_all add: run_tcp_sink_def Let_def net_close_def drop_client_def
        split: option.splits)
  have "pc (run_tcp_sink st w) = W_init \<or> pc (run_tcp_sink st w) = W_loop
      \<or> pc (run_tcp_sink st w) = W_accept \<or> pc (run_tcp_sink st w) = W_close
      \<or> pc (run_tcp_sink st w) = W_cleanup \<or> (\<exists>r. pc (run_tcp_sink st w) = W_done r)"
    using places by cases (simp_all add: run_tcp_sink_def Let_def)
  then show ?thesis
    unfolding log using header_inv_parts(1)[OF inv] by (intro header_inv_idle) (simp_all add: wire)
qed

lemma header_inv_work:
  assumes inv: "header_inv st H"
    and caps: "whole_or_nothing (cap1 w)" "whole_or_nothing (cap2 w)"
  shows "header_inv (step st (Work w)) (codec_headers_step st (Work w) H)"
proof (cases "pc st")
  case W_accept
  with inv show ?thesis unfolding step.simps by (rule head_accept)
next
  case W_info
  with inv show ?thesis unfolding step.simps using caps by (rule head_info)
next
  case (W_send_cfg c)
  with inv show ?thesis unfolding step.simps using caps by (rule head_send_cfg)
next
  case W_send_cfg_freed
  with inv show ?thesis unfolding step.simps using caps by (rule head_send_cfg_freed)
next
  case (W_send p)
  with inv show ?thesis unfolding step.simps using caps by (rule head_send)
next
  case W_cfg
  with inv show ?thesis unfolding step.simps by (rule head_cfg)
next
  case W_stream
  with inv show ?thesis unfolding step.simps by (rule head_stream)
next
  case W_accepted
  with inv show ?thesis unfolding step.simps by (intro head_waiting) simp_all
next
  case W_wait
  with inv show ?thesis unfolding step.simps by (intro head_waiting) simp_all
next
  case W_waited
  with inv show ?thesis unfolding step.simps by (intro head_waiting) simp_all
next
  case W_init
  with inv show ?thesis unfolding step.simps by (intro head_idle) simp_all
next
  case W_loop
  with inv show ?thesis unfolding step.simps by (intro head_idle) simp_all
next
  case W_close
  with inv show ?thesis unfolding step.simps by (intro head_idle) simp_all
next
  case W_cleanup
  with inv show ?thesis unfolding step.simps by (intro head_idle) simp_all
next
  case (W_done r)
  with inv show ?thesis unfolding step.simps by (intro head_idle) simp_all
qed

lemma header_inv_step:
  assumes inv: "header_inv st H" and ok: "no_short_write [e]"
  shows "header_inv (step st e) (codec_headers_step st e H)"
proof (cases "\<exists>w. e = Work w")
  case True
  then obtain w where e: "e = Work w" by blast
  with ok have "whole_or_nothing (cap1 w)" "whole_or_nothing (cap2 w)"
    by (simp_all add: no_short_write_def)
  with inv show ?thesis unfolding e by (rule header_inv_work)
next
  case False
  with inv show ?thesis by (intro header_inv_upstream) auto
qed

lemma header_inv_run:
  assumes "header_inv st H" and "no_short_write es"
  shows "header_inv (run st es) (codec_headers_after st es H)"
  using assms
proof (induction es arbitrary: st H)
  case Nil
  then show ?case by (simp add: run_def)
next
  case (Cons e es)
  from Cons.prems(2) have e: "no_short_write [e]" and es: "no_short_write es"
    by (simp_all add: no_short_write_def)
  have "header_inv (step st e) (codec_headers_step st e H)"
    using Cons.prems(1) e by (rule header_inv_step)
  then have "header_inv (run (step st e) es)
      (codec_headers_after (step st e) es (codec_headers_step st e H))"
    using es by (rule Cons.IH)
  then show ?case by (simp add: run_def)
qed

lemma header_inv_started: "header_inv (started mem p) []"
  by (simp add: header_inv_def started_def sc_tcp_sink_init_def)

subsection \<open>The bytes of the codec header\<close>

lemma codec_info_fields:
  "sc_read32be (codec_info s) = codec_id s"
  "sc_read32be (drop 4 (codec_info s)) = width s"
  "sc_read32be (drop 8 (codec_info s)) = height s"
proof -
  have r: "\<And>v. sc_read32be (sc_write32be v) = v"
    using sc_read32be_write[of _ "[]"] by simp
  show "sc_read32be (codec_info s) = codec_id s"
    by (simp add: codec_info_def)
  show "sc_read32be (drop 4 (codec_info s)) = width s"
    by (simp add: codec_info_def)
  show "sc_read32be (drop 8 (codec_info s)) = height s"
    by (simp add: codec_info_def r)
qed

lemma codec_info_h264_720p:
  "codec_info (snd (sc_tcp_sink_packet_sink_open s
       \<lparr>ctx_codec_id = AV_CODEC_ID_H264, ctx_width = 1280, ctx_height = 720\<rparr>))
     = [0x68, 0x32, 0x36, 0x34, 0x00, 0x00, 0x05, 0x00, 0x00, 0x00, 0x02, 0xD0]"
  by (simp add: codec_info_def sc_tcp_sink_packet_sink_open_def sc_cond_signal_def
      SC_CODEC_ID_H264_def sc_write32be_def)

lemma second_client_headers:
  "codec_headers (started fresh_mem 27183) second_client
     = [[0x68, 0x32, 0x36, 0x34, 0, 0, 5, 0, 0, 0, 2, 0xD0],
        [0x68, 0x32, 0x36, 0x34, 0, 0, 5, 0, 0, 0, 2, 0xD0]]"
  "pc (run (started fresh_mem 27183) second_client) = W_stream"
  by (simp_all add: second_client_def log_defs sink_defs wire_defs)

lemma short_header_state:
  "codec_headers (started fresh_mem 27183) short_header
     = [[0x68, 0x32, 0x36, 0x34, 0, 0, 5, 0, 0, 0, 2, 0xD0]]"
  "pc (run (started fresh_mem 27183) short_header) = W_stream"
  "wire (network (run (started fresh_mem 27183) short_header))
     = [[0x68, 0x32, 0x36, 0x34, 0, 0, 5,
         0x40, 0, 0, 0, 0, 0, 0x03, 0xE8, 0, 0, 0, 1, 0xAA]]"
  by (simp_all add: short_header_def log_defs sink_defs wire_defs)


text \<open>
  C7, as amended. The codec header of a sink is 12 bytes: the codec id, the width and the
  height, each as 32 bits big-endian; after \<open>open(H264, 1280, 720)\<close> they are
  \<open>68 32 36 34 00 00 05 00 00 00 02 D0\<close>. \<^verbatim>\<open>sc_tcp_sink_send_codec_info\<close>, when the client
  is a connection and both of its sends complete, writes exactly these 12 bytes on the
  client's connection and returns true. Over every schedule from the start of the sink
  in which no send is short, the worker sends the codec header at most once per
  connection, before anything else: a connection for which no header has been sent has
  nothing written on it, and on any other what is written is a part of its one codec
  header or begins with it; once the worker is in its streaming loop, what is written on
  the current client's connection begins with the 12 bytes of its codec header.
\<close>

theorem codec_header_bytes:
  "(client_socket s = Some (Conn i) \<and> i < length (wire n) \<and> completes c1 4 \<and> completes c2 8
      \<longrightarrow> sc_tcp_sink_send_codec_info n s c1 c2
            = (n\<lparr>wire := (wire n)[i := wire n ! i @ codec_info s]\<rparr>, True))
   \<and> codec_info s = sc_write32be (codec_id s) @ sc_write32be (width s) @ sc_write32be (height s)
   \<and> length (codec_info s) = 12
   \<and> sc_read32be (codec_info s) = codec_id s
   \<and> sc_read32be (drop 4 (codec_info s)) = width s
   \<and> sc_read32be (drop 8 (codec_info s)) = height s
   \<and> codec_info (snd (sc_tcp_sink_packet_sink_open s
         \<lparr>ctx_codec_id = AV_CODEC_ID_H264, ctx_width = 1280, ctx_height = 720\<rparr>))
       = [0x68, 0x32, 0x36, 0x34, 0x00, 0x00, 0x05, 0x00, 0x00, 0x00, 0x02, 0xD0]
   \<and> (no_short_write es \<longrightarrow>
        list_all2 headed (wire (network (run (started mem p) es)))
          (codec_headers (started mem p) es)
        \<and> (streaming (pc (run (started mem p) es)) \<longrightarrow>
             length (last (codec_headers (started mem p) es)) = 12
             \<and> prefix (last (codec_headers (started mem p) es))
                      (last (wire (network (run (started mem p) es))))))"
proof -
  have a: "sc_tcp_sink_send_codec_info n s c1 c2
            = (n\<lparr>wire := (wire n)[i := wire n ! i @ codec_info s]\<rparr>, True)"
    if "client_socket s = Some (Conn i)" "i < length (wire n)" "completes c1 4" "completes c2 8"
    using that by (rule send_codec_info_full)
  have b: "list_all2 headed (wire (network (run (started mem p) es)))
          (codec_headers (started mem p) es)
        \<and> (streaming (pc (run (started mem p) es)) \<longrightarrow>
             length (last (codec_headers (started mem p) es)) = 12
             \<and> prefix (last (codec_headers (started mem p) es))
                      (last (wire (network (run (started mem p) es)))))"
    if "no_short_write es"
  proof -
    have inv: "header_inv (run (started mem p) es) (codec_headers (started mem p) es)"
      unfolding codec_headers_def using header_inv_started that by (rule header_inv_run)
    show ?thesis
      using inv
      by (cases "pc (run (started mem p) es)") (simp_all add: header_inv_def streaming_def)
  qed
  show ?thesis
    using a b by (simp add: codec_info_fields codec_info_h264_720p) (simp add: codec_info_def)
qed

text \<open>
  The theorem at a sink with one client, after \<open>open(H264, 1280, 720)\<close>, and at the
  schedule \<open>second_client\<close>.
\<close>

theorem codec_header_bytes_witness:
  "client_socket (snd (sc_tcp_sink_packet_sink_open serving_sink h264_720p)) = Some (Conn 0)
   \<and> 0 < length (wire one_client) \<and> completes None 4 \<and> completes (Some 8) 8
   \<and> sc_tcp_sink_send_codec_info one_client
        (snd (sc_tcp_sink_packet_sink_open serving_sink h264_720p)) None (Some 8)
       = (one_client\<lparr>wire := [[0x68, 0x32, 0x36, 0x34, 0x00, 0x00, 0x05, 0x00,
                                 0x00, 0x00, 0x02, 0xD0]]\<rparr>, True)
   \<and> no_short_write second_client
   \<and> streaming (pc (run (started fresh_mem 27183) second_client))
   \<and> codec_headers (started fresh_mem 27183) second_client
       = [[0x68, 0x32, 0x36, 0x34, 0, 0, 5, 0, 0, 0, 2, 0xD0],
          [0x68, 0x32, 0x36, 0x34, 0, 0, 5, 0, 0, 0, 2, 0xD0]]
   \<and> list_all2 headed
        [[0x68, 0x32, 0x36, 0x34, 0, 0, 5, 0, 0, 0, 2, 0xD0],
         [0x68, 0x32, 0x36, 0x34, 0, 0, 5, 0, 0, 0, 2, 0xD0,
          0, 0, 0, 0, 0, 0, 0x07, 0xD0, 0, 0, 0, 2, 0xBB, 0xCC]]
        [[0x68, 0x32, 0x36, 0x34, 0, 0, 5, 0, 0, 0, 2, 0xD0],
         [0x68, 0x32, 0x36, 0x34, 0, 0, 5, 0, 0, 0, 2, 0xD0]]"
proof -
  let ?s = "snd (sc_tcp_sink_packet_sink_open serving_sink h264_720p)"
  have a: "client_socket ?s = Some (Conn 0)"
    by (simp add: example_defs)
  have b: "0 < length (wire one_client)" by (simp add: one_client_def)
  have c: "completes None 4" "completes (Some 8) 8" by (simp_all add: completes_def)
  have d: "no_short_write second_client"
    by (simp add: no_short_write_def second_client_def whole_or_nothing_def fine_def broken_def)
  have e: "streaming (pc (run (started fresh_mem 27183) second_client))"
    by (simp add: second_client_headers streaming_def)
  have f: "codec_info ?s = [0x68, 0x32, 0x36, 0x34, 0x00, 0x00, 0x05, 0x00, 0x00, 0x00, 0x02, 0xD0]"
    unfolding h264_720p_def by (rule codec_info_h264_720p)
  have g: "wire one_client = [[]]" by (simp add: one_client_def)
  note t = codec_header_bytes[of ?s 0 one_client None "Some 8" second_client fresh_mem 27183]
  from t a b c have 1: "sc_tcp_sink_send_codec_info one_client ?s None (Some 8)
      = (one_client\<lparr>wire := (wire one_client)[0 := wire one_client ! 0 @ codec_info ?s]\<rparr>, True)"
    by blast
  from t d have 2: "list_all2 headed (wire (network (run (started fresh_mem 27183) second_client)))
      (codec_headers (started fresh_mem 27183) second_client)"
    by blast
  show ?thesis
    using 1 2 a b c d e
    by (simp add: f g second_client_headers second_client_wire)
qed

text \<open>
  C7 as stated fails when a send of the codec header does not complete. When the second
  send fails before its first byte, \<^verbatim>\<open>sc_tcp_sink_send_codec_info\<close> has written the 4
  bytes of the codec id and returns false (the worker then drops the client). When the
  second send stops after 3 of its 8 bytes, it has written 7 bytes and returns true: it
  tests the result of \<^verbatim>\<open>net_send_all\<close> for \<open>< 0\<close> only. At the schedule \<open>short_header\<close>
  the worker goes on to its streaming loop and sends a frame behind these 7 bytes: what
  the client reads does not begin with the 12 bytes of the codec header.
\<close>

theorem short_codec_header_counterexample:
  "client_socket (snd (sc_tcp_sink_packet_sink_open serving_sink h264_720p)) = Some (Conn 0)
   \<and> sc_tcp_sink_send_codec_info one_client
        (snd (sc_tcp_sink_packet_sink_open serving_sink h264_720p)) None (Some 0)
       = (one_client\<lparr>wire := [[0x68, 0x32, 0x36, 0x34]]\<rparr>, False)
   \<and> sc_tcp_sink_send_codec_info one_client
        (snd (sc_tcp_sink_packet_sink_open serving_sink h264_720p)) None (Some 3)
       = (one_client\<lparr>wire := [[0x68, 0x32, 0x36, 0x34, 0x00, 0x00, 0x05]]\<rparr>, True)
   \<and> streaming (pc (run (started fresh_mem 27183) short_header))
   \<and> codec_headers (started fresh_mem 27183) short_header
       = [[0x68, 0x32, 0x36, 0x34, 0, 0, 5, 0, 0, 0, 2, 0xD0]]
   \<and> wire (network (run (started fresh_mem 27183) short_header))
       = [[0x68, 0x32, 0x36, 0x34, 0, 0, 5,
           0x40, 0, 0, 0, 0, 0, 0x03, 0xE8, 0, 0, 0, 1, 0xAA]]
   \<and> \<not> list_all2 headed (wire (network (run (started fresh_mem 27183) short_header)))
          (codec_headers (started fresh_mem 27183) short_header)"
proof -
  have "sc_tcp_sink_send_codec_info one_client
        (snd (sc_tcp_sink_packet_sink_open serving_sink h264_720p)) None (Some 3)
       = (one_client\<lparr>wire := [[0x68, 0x32, 0x36, 0x34, 0x00, 0x00, 0x05]]\<rparr>, True)"
    by (simp add: sc_tcp_sink_send_codec_info_def net_send_all_def example_defs
        sc_tcp_sink_packet_sink_open_def sc_cond_signal_def SC_CODEC_ID_H264_def
        sc_write32be_def)
  moreover have "sc_tcp_sink_send_codec_info one_client
        (snd (sc_tcp_sink_packet_sink_open serving_sink h264_720p)) None (Some 0)
       = (one_client\<lparr>wire := [[0x68, 0x32, 0x36, 0x34]]\<rparr>, False)"
    by (simp add: sc_tcp_sink_send_codec_info_def net_send_all_def example_defs
        sc_tcp_sink_packet_sink_open_def sc_cond_signal_def SC_CODEC_ID_H264_def
        sc_write32be_def)
  moreover have "client_socket (snd (sc_tcp_sink_packet_sink_open serving_sink h264_720p))
      = Some (Conn 0)"
    by (simp add: example_defs)
  ultimately show ?thesis
    by (simp add: short_header_state streaming_def headed_def)
qed

section \<open>The cached config packet greets the next client\<close>

subsection \<open>Events of the upstream thread keep the invariant\<close>













subsection \<open>Steps of the worker keep the invariant\<close>
















subsection \<open>A late client\<close>








end
